theory Spec2Isabelle
  imports Main
begin

unbundle bit_operations_syntax

section \<open>Package password: data model\<close>

text \<open>
  A shallow embedding of \<^verbatim>\<open>password/password.go\<close>. A Go \<^verbatim>\<open>string\<close> is a sequence of
  bytes and is modelled as \<^typ>\<open>string\<close> (a list of 8-bit characters); \<^verbatim>\<open>len(s)\<close> is
  \<^term>\<open>length s\<close>. A Go \<^verbatim>\<open>int\<close> is taken to be the 64-bit one and is modelled as
  \<^typ>\<open>int\<close>: the package only compares, clamps and reduces such values, and its sums
  stay far below \<open>2 ^ 63\<close>, so no operation of the model can wrap around.
\<close>

record Config =
  MinLength :: int
  MaxLength :: int
  RequireUpper :: bool
  RequireLower :: bool
  RequireDigit :: bool
  RequireSpecial :: bool
  BcryptCost :: int

record Manager =
  config :: Config

datatype PasswordStrength =
  StrengthWeak | StrengthFair | StrengthGood | StrengthStrong | StrengthVeryStrong

record PasswordValidation =
  Valid :: bool
  Strength :: PasswordStrength
  Score :: int
  Errors :: "string list"
  Suggestions :: "string list"

record HashedPassword =
  Hash :: string
  Algorithm :: string
  Cost :: int
  CreatedAt :: int

subsection \<open>Construction and reconfiguration\<close>

definition NewWithConfig :: "Config \<Rightarrow> Manager" where
  "NewWithConfig cfg =
    (let c1 = (if MinLength cfg = 0 then cfg\<lparr>MinLength := 8\<rparr> else cfg);
         c2 = (if MaxLength c1 = 0 then c1\<lparr>MaxLength := 128\<rparr> else c1);
         c3 = (if BcryptCost c2 = 0 then c2\<lparr>BcryptCost := 12\<rparr> else c2);
         c4 = (if BcryptCost c3 < 4 then c3\<lparr>BcryptCost := 4\<rparr> else c3);
         c5 = (if BcryptCost c4 > 31 then c4\<lparr>BcryptCost := 31\<rparr> else c4)
     in \<lparr>config = c5\<rparr>)"

definition New :: Manager where
  "New = NewWithConfig
    \<lparr>MinLength = 8, MaxLength = 128, RequireUpper = True, RequireLower = True,
     RequireDigit = True, RequireSpecial = False, BcryptCost = 12\<rparr>"

definition GetConfig :: "Manager \<Rightarrow> Config" where
  "GetConfig pm = config pm"

definition UpdateConfig :: "Manager \<Rightarrow> Config \<Rightarrow> Manager" where
  "UpdateConfig pm cfg = pm\<lparr>config := cfg\<rparr>"

section \<open>Strings as Go reads them\<close>

subsection \<open>Ranging over a string: UTF-8 decoding\<close>

text \<open>
  \<^verbatim>\<open>for _, char := range s\<close> decodes \<^verbatim>\<open>s\<close> as UTF-8 and yields code points; a byte
  that does not start a well-formed encoding yields \<open>U+FFFD\<close> and advances by one byte.
  \<open>decodeRune c cs\<close> decodes the first code point of \<open>c # cs\<close> and returns it with
  the number of bytes it occupies, accepting exactly the encodings Go's decoder accepts
  (no overlong forms, no surrogates, nothing above \<open>U+10FFFF\<close>).
\<close>

definition RuneError :: nat where
  "RuneError = 0xFFFD"

definition byte_in :: "char \<Rightarrow> nat \<Rightarrow> nat \<Rightarrow> bool" where
  "byte_in b lo hi = (lo \<le> of_char b \<and> (of_char b :: nat) \<le> hi)"

definition second_lo :: "nat \<Rightarrow> nat" where
  "second_lo b0 = (if b0 = 0xE0 then 0xA0 else if b0 = 0xF0 then 0x90 else 0x80)"

definition second_hi :: "nat \<Rightarrow> nat" where
  "second_hi b0 = (if b0 = 0xED then 0x9F else if b0 = 0xF4 then 0x8F else 0xBF)"

definition low6 :: "char \<Rightarrow> nat" where
  "low6 b = of_char b mod 64"

fun decodeRune :: "char \<Rightarrow> string \<Rightarrow> nat \<times> nat" where
  "decodeRune c cs =
    (let b0 = (of_char c :: nat) in
     if b0 < 0x80 then (b0, 1)
     else if 0xC2 \<le> b0 \<and> b0 \<le> 0xDF then
       (case cs of
          b1 # _ \<Rightarrow>
            if byte_in b1 0x80 0xBF then ((b0 mod 32) * 64 + low6 b1, 2) else (RuneError, 1)
        | _ \<Rightarrow> (RuneError, 1))
     else if 0xE0 \<le> b0 \<and> b0 \<le> 0xEF then
       (case cs of
          b1 # b2 # _ \<Rightarrow>
            if byte_in b1 (second_lo b0) (second_hi b0) \<and> byte_in b2 0x80 0xBF
            then ((b0 mod 16) * 4096 + low6 b1 * 64 + low6 b2, 3) else (RuneError, 1)
        | _ \<Rightarrow> (RuneError, 1))
     else if 0xF0 \<le> b0 \<and> b0 \<le> 0xF4 then
       (case cs of
          b1 # b2 # b3 # _ \<Rightarrow>
            if byte_in b1 (second_lo b0) (second_hi b0) \<and> byte_in b2 0x80 0xBF
               \<and> byte_in b3 0x80 0xBF
            then ((b0 mod 8) * 262144 + low6 b1 * 4096 + low6 b2 * 64 + low6 b3, 4)
            else (RuneError, 1)
        | _ \<Rightarrow> (RuneError, 1))
     else (RuneError, 1))"

fun runes :: "string \<Rightarrow> nat list" where
  "runes [] = []"
| "runes (c # cs) = (case decodeRune c cs of (r, width) \<Rightarrow> r # runes (drop (width - 1) cs))"

text \<open>\<^verbatim>\<open>utf8.RuneCountInString\<close>: the number of characters of a string.\<close>

definition RuneCount :: "string \<Rightarrow> nat" where
  "RuneCount s = length (runes s)"

text \<open>Encoding a code point, as \<^verbatim>\<open>strings.Builder.WriteRune\<close> does.\<close>

definition byte :: "nat \<Rightarrow> char" where
  "byte n = char_of n"

definition encodeRune :: "nat \<Rightarrow> string" where
  "encodeRune r =
    (if r < 0x80 then [byte r]
     else if r < 0x800 then [byte (0xC0 + r div 64), byte (0x80 + r mod 64)]
     else if (0xD800 \<le> r \<and> r \<le> 0xDFFF) \<or> 0x10FFFF < r then [byte 0xEF, byte 0xBF, byte 0xBD]
     else if r < 0x10000 then
       [byte (0xE0 + r div 4096), byte (0x80 + (r div 64) mod 64), byte (0x80 + r mod 64)]
     else
       [byte (0xF0 + r div 262144), byte (0x80 + (r div 4096) mod 64),
        byte (0x80 + (r div 64) mod 64), byte (0x80 + r mod 64)])"

subsection \<open>Library functions on strings\<close>

text \<open>
  \<^verbatim>\<open>strings.ToLower\<close> lowers every code point and re-encodes the result. On the ASCII
  range the mapping is fixed; beyond it Go consults the Unicode case tables, which are
  not part of the package: they are the parameter \<open>ul\<close>
  (\<^verbatim>\<open>unicode.ToLower\<close> restricted to code points from \<open>0x80\<close> on).
\<close>

definition toLowerRune :: "(nat \<Rightarrow> nat) \<Rightarrow> nat \<Rightarrow> nat" where
  "toLowerRune ul r =
    (if of_char CHR ''A'' \<le> r \<and> r \<le> of_char CHR ''Z'' then r + 32
     else if r < 0x80 then r else ul r)"

definition ToLower :: "(nat \<Rightarrow> nat) \<Rightarrow> string \<Rightarrow> string" where
  "ToLower ul s = concat (map (\<lambda>r. encodeRune (toLowerRune ul r)) (runes s))"

fun HasPrefix :: "string \<Rightarrow> string \<Rightarrow> bool" where
  "HasPrefix s [] = True"
| "HasPrefix [] (p # ps) = False"
| "HasPrefix (c # cs) (p # ps) = (c = p \<and> HasPrefix cs ps)"

fun Contains :: "string \<Rightarrow> string \<Rightarrow> bool" where
  "Contains [] substr = HasPrefix [] substr"
| "Contains (c # cs) substr = (HasPrefix (c # cs) substr \<or> Contains cs substr)"

fun Join :: "string list \<Rightarrow> string \<Rightarrow> string" where
  "Join [] sep = []"
| "Join [x] sep = x"
| "Join (x # y # ys) sep = x @ sep @ Join (y # ys) sep"

text \<open>The verb \<^verbatim>\<open>%d\<close> of \<^verbatim>\<open>fmt.Sprintf\<close>: an integer in decimal.\<close>

fun decimal :: "nat \<Rightarrow> string" where
  "decimal n =
    (if n < 10 then [char_of (48 + n)] else decimal (n div 10) @ [char_of (48 + n mod 10)])"

definition Sprintf_d :: "int \<Rightarrow> string" where
  "Sprintf_d i = (if i < 0 then CHR ''-'' # decimal (nat (- i)) else decimal (nat i))"

section \<open>Character classes and patterns\<close>

definition containsUpper :: "string \<Rightarrow> bool" where
  "containsUpper s = list_ex (\<lambda>r. of_char CHR ''A'' \<le> r \<and> r \<le> of_char CHR ''Z'') (runes s)"

definition containsLower :: "string \<Rightarrow> bool" where
  "containsLower s = list_ex (\<lambda>r. of_char CHR ''a'' \<le> r \<and> r \<le> of_char CHR ''z'') (runes s)"

definition containsDigit :: "string \<Rightarrow> bool" where
  "containsDigit s = list_ex (\<lambda>r. of_char CHR ''0'' \<le> r \<and> r \<le> of_char CHR ''9'') (runes s)"

definition specialChars :: string where
  "specialChars = ''!@#$%^&*()_+-=[]{}|;:,.<>?''"

definition containsSpecial :: "string \<Rightarrow> bool" where
  "containsSpecial s = list_ex (\<lambda>r. list_ex (\<lambda>special. r = special) (runes specialChars)) (runes s)"

fun hasRepeatingChars :: "string \<Rightarrow> bool" where
  "hasRepeatingChars (a # b # c # cs) = ((a = b \<and> b = c) \<or> hasRepeatingChars (b # c # cs))"
| "hasRepeatingChars _ = False"

definition reverse :: "string \<Rightarrow> string" where
  "reverse s = concat (map encodeRune (rev (runes s)))"

definition containsSequence :: "(nat \<Rightarrow> nat) \<Rightarrow> string \<Rightarrow> string \<Rightarrow> nat \<Rightarrow> bool" where
  "containsSequence ul s sequence n =
    list_ex (\<lambda>i. Contains (ToLower ul s) (take n (drop i sequence)))
      [0 ..< nat (int (length sequence) - int n + 1)]"

definition sequences :: "string list" where
  "sequences =
    [''abcdefghijklmnopqrstuvwxyz'', ''ABCDEFGHIJKLMNOPQRSTUVWXYZ'', ''0123456789'',
     ''qwertyuiopasdfghjklzxcvbnm'']"

definition hasSequentialChars :: "(nat \<Rightarrow> nat) \<Rightarrow> string \<Rightarrow> bool" where
  "hasSequentialChars ul s =
    (if length s < 3 then False
     else list_ex (\<lambda>seq. containsSequence ul s seq 3 \<or> containsSequence ul s (reverse seq) 3)
            sequences)"

section \<open>Validation and scoring\<close>

definition b2i :: "bool \<Rightarrow> int" where
  "b2i b = (if b then 1 else 0)"

definition score_of :: "(nat \<Rightarrow> nat) \<Rightarrow> string \<Rightarrow> int" where
  "score_of ul password =
    (let n = int (length password) in
       b2i (n \<ge> 8) + b2i (n \<ge> 12) + b2i (n \<ge> 16)
     + b2i (containsLower password) + b2i (containsUpper password)
     + b2i (containsDigit password) + 2 * b2i (containsSpecial password)
     + b2i (\<not> hasRepeatingChars password) + b2i (\<not> hasSequentialChars ul password))"

definition calculateStrength :: "(nat \<Rightarrow> nat) \<Rightarrow> string \<Rightarrow> PasswordStrength \<times> int" where
  "calculateStrength ul password =
    (let score = score_of ul password in
     if score \<ge> 9 then (StrengthVeryStrong, score)
     else if score \<ge> 7 then (StrengthStrong, score)
     else if score \<ge> 5 then (StrengthGood, score)
     else if score \<ge> 3 then (StrengthFair, score)
     else (StrengthWeak, score))"

text \<open>
  \<open>Validate\<close> runs its six checks in order; a failed check clears \<open>Valid\<close> and appends
  its message (and, for all but the upper length bound, a suggestion).
\<close>

definition fail_with :: "string \<Rightarrow> string list \<Rightarrow> PasswordValidation \<Rightarrow> PasswordValidation" where
  "fail_with msg sugg v =
    v\<lparr>Valid := False, Errors := Errors v @ [msg], Suggestions := Suggestions v @ sugg\<rparr>"

definition msgTooShort :: "Config \<Rightarrow> string" where
  "msgTooShort cfg =
    ''Password must be at least '' @ Sprintf_d (MinLength cfg) @ '' characters long''"

definition msgTooLong :: "Config \<Rightarrow> string" where
  "msgTooLong cfg = ''Password must not exceed '' @ Sprintf_d (MaxLength cfg) @ '' characters''"

definition Validate :: "(nat \<Rightarrow> nat) \<Rightarrow> Manager \<Rightarrow> string \<Rightarrow> PasswordValidation" where
  "Validate ul pm password =
    (let cfg = config pm;
         v0 = \<lparr>Valid = True, Strength = StrengthWeak, Score = 0, Errors = [], Suggestions = []\<rparr>;
         v1 = (if int (length password) < MinLength cfg
               then fail_with (msgTooShort cfg) [''Use a longer password''] v0 else v0);
         v2 = (if int (length password) > MaxLength cfg
               then fail_with (msgTooLong cfg) [] v1 else v1);
         v3 = (if RequireUpper cfg \<and> \<not> containsUpper password
               then fail_with ''Password must contain at least one uppercase letter''
                      [''Add uppercase letters (A-Z)''] v2 else v2);
         v4 = (if RequireLower cfg \<and> \<not> containsLower password
               then fail_with ''Password must contain at least one lowercase letter''
                      [''Add lowercase letters (a-z)''] v3 else v3);
         v5 = (if RequireDigit cfg \<and> \<not> containsDigit password
               then fail_with ''Password must contain at least one digit''
                      [''Add numbers (0-9)''] v4 else v4);
         v6 = (if RequireSpecial cfg \<and> \<not> containsSpecial password
               then fail_with ''Password must contain at least one special character''
                      [''Add special characters (!@#$%^&*)''] v5 else v5)
     in case calculateStrength ul password of
          (strength, score) \<Rightarrow> v6\<lparr>Strength := strength, Score := score\<rparr>)"


text \<open>
  The four classes as sets of bytes. A byte below \<open>0x80\<close> is always decoded as a code
  point of its own, so these describe what the \<open>contains\<close> functions look for.
\<close>

definition is_upper :: "char \<Rightarrow> bool" where
  "is_upper c = (of_char CHR ''A'' \<le> (of_char c :: nat) \<and> (of_char c :: nat) \<le> of_char CHR ''Z'')"

definition is_lower :: "char \<Rightarrow> bool" where
  "is_lower c = (of_char CHR ''a'' \<le> (of_char c :: nat) \<and> (of_char c :: nat) \<le> of_char CHR ''z'')"

definition is_digit :: "char \<Rightarrow> bool" where
  "is_digit c = (of_char CHR ''0'' \<le> (of_char c :: nat) \<and> (of_char c :: nat) \<le> of_char CHR ''9'')"

definition is_special :: "char \<Rightarrow> bool" where
  "is_special c = (c \<in> set specialChars)"

section \<open>Errors\<close>

text \<open>
  The package's sentinel errors, and the two shapes an error value takes: a sentinel
  itself, or \<^verbatim>\<open>fmt.Errorf("%w: ...", sentinel, detail)\<close>, which wraps the sentinel and
  carries a detail (a text, or the message of an error of the bcrypt package).
  \<open>errors_Is\<close> is \<^verbatim>\<open>errors.Is\<close> on such values.
\<close>

datatype bcrypt_error =
  bcrypt_ErrMismatchedHashAndPassword
| bcrypt_ErrHashTooShort
| bcrypt_ErrPasswordTooLong
| bcrypt_InvalidHashPrefixError char
| bcrypt_HashVersionTooNewError char
| bcrypt_InvalidCostError int
| bcrypt_SyntaxError
| bcrypt_EntropyError

datatype sentinel =
  ErrPasswordTooShort | ErrPasswordTooLong | ErrPasswordTooWeak
| ErrInvalidHash | ErrHashingFailed | ErrVerificationFailed

datatype detail = Text string | Cause bcrypt_error

datatype error = Sentinel sentinel | Wrapped sentinel detail

fun errors_Is :: "error \<Rightarrow> sentinel \<Rightarrow> bool" where
  "errors_Is (Sentinel s) target = (s = target)"
| "errors_Is (Wrapped s d) target = (s = target)"

section \<open>Hashing and verification\<close>

text \<open>
  \<^verbatim>\<open>golang.org/x/crypto/bcrypt\<close> is imported by the package and is not part of the
  repository. \<open>Hash\<close> and \<open>Verify\<close> take it as a parameter: the two functions they
  call. \<open>GenerateFromPassword\<close> draws a salt from the system's entropy source; the
  first argument is that draw (\<open>None\<close> when the source fails).
\<close>

record bcrypt =
  GenerateFromPassword :: "string option \<Rightarrow> string \<Rightarrow> int \<Rightarrow> bcrypt_error + string"
  CompareHashAndPassword :: "string \<Rightarrow> string \<Rightarrow> bcrypt_error option"

text \<open>\<open>Manager_Hash\<close> is the method \<^verbatim>\<open>Manager.Hash\<close>; \<open>now\<close> is the reading of the clock.\<close>

definition Manager_Hash ::
  "(nat \<Rightarrow> nat) \<Rightarrow> bcrypt \<Rightarrow> int \<Rightarrow> string option \<Rightarrow> Manager \<Rightarrow> string \<Rightarrow> error + HashedPassword"
where
  "Manager_Hash ul B now entropy pm password =
    (let validation = Validate ul pm password in
     if \<not> Valid validation
     then Inl (Wrapped ErrPasswordTooWeak (Text (Join (Errors validation) '', '')))
     else
       (case GenerateFromPassword B entropy password (BcryptCost (config pm)) of
          Inl err \<Rightarrow> Inl (Wrapped ErrHashingFailed (Cause err))
        | Inr hashBytes \<Rightarrow>
            Inr \<lparr>Hash = hashBytes, Algorithm = ''bcrypt'', Cost = BcryptCost (config pm),
                 CreatedAt = now\<rparr>))"

definition HashString ::
  "(nat \<Rightarrow> nat) \<Rightarrow> bcrypt \<Rightarrow> int \<Rightarrow> string option \<Rightarrow> Manager \<Rightarrow> string \<Rightarrow> error + string"
where
  "HashString ul B now entropy pm password =
    (case Manager_Hash ul B now entropy pm password of
       Inl err \<Rightarrow> Inl err
     | Inr hashedPassword \<Rightarrow> Inr (Hash hashedPassword))"

definition Verify :: "bcrypt \<Rightarrow> Manager \<Rightarrow> string \<Rightarrow> string \<Rightarrow> error option" where
  "Verify B pm password hash =
    (if hash = [] then Some (Sentinel ErrInvalidHash)
     else
       (case CompareHashAndPassword B hash password of
          None \<Rightarrow> None
        | Some err \<Rightarrow>
            if err = bcrypt_ErrMismatchedHashAndPassword then Some (Sentinel ErrVerificationFailed)
            else Some (Wrapped ErrVerificationFailed (Cause err))))"

definition VerifyAndCheck :: "bcrypt \<Rightarrow> Manager \<Rightarrow> string \<Rightarrow> string \<Rightarrow> bool \<times> error option" where
  "VerifyAndCheck B pm password hash =
    (case Verify B pm password hash of
       None \<Rightarrow> (True, None)
     | Some err \<Rightarrow> if errors_Is err ErrVerificationFailed then (False, None) else (False, Some err))"


subsection \<open>What the package expects of bcrypt, and a reference instance\<close>

text \<open>
  The contract of the bcrypt package, as far as \<open>Hash\<close> and \<open>Verify\<close> rely on it: with
  a salt at hand, a password of at most 72 bytes and a cost of at most 31 are hashed to
  a non-empty string, and that string compares equal with the same password.
\<close>

definition bcrypt_sound :: "bcrypt \<Rightarrow> bool" where
  "bcrypt_sound B =
    (\<forall>salt password cost. length password \<le> 72 \<and> cost \<le> 31 \<longrightarrow>
       (\<exists>h. GenerateFromPassword B (Some salt) password cost = Inr h \<and> h \<noteq> []
            \<and> CompareHashAndPassword B h password = None))"

text \<open>
  \<open>bcrypt_ref\<close> is an instance that follows the documented behaviour of the package:
  \<^item> \<^verbatim>\<open>GenerateFromPassword\<close> rejects a password of more than 72 bytes, replaces a cost
    below 4 by the default 10 and rejects a cost above 31;
  \<^item> a hash is the text \<^verbatim>\<open>$2a$\<close>, the cost in two digits, \<^verbatim>\<open>$\<close>, 22 characters of salt
    and 31 characters of digest; \<^verbatim>\<open>CompareHashAndPassword\<close> reports a text of fewer
    than 59 bytes as too short, then checks the prefix, the version and the cost;
  \<^item> the key schedule reads the password followed by a zero byte, repeated cyclically,
    and only its first 72 bytes (\<open>expand_key\<close>); the digest depends on the password
    through these bytes alone.
  The Blowfish computation itself is the parameter \<open>bf\<close>, a function of the expanded
  key, the cost and the salt; \<open>fit\<close> stands for the radix-64 encodings, which have a
  fixed width.
\<close>

definition expand_key :: "string \<Rightarrow> string" where
  "expand_key password = take 72 (concat (replicate 72 (password @ [CHR 0x00])))"

definition fit :: "nat \<Rightarrow> string \<Rightarrow> string" where
  "fit n s = take n (s @ replicate n CHR ''.'')"

definition two_digits :: "int \<Rightarrow> string" where
  "two_digits c = [char_of (48 + nat c div 10), char_of (48 + nat c mod 10)]"

definition digit_val :: "char \<Rightarrow> int option" where
  "digit_val c = (if is_digit c then Some (of_char c - 48) else None)"

fun Atoi2 :: "string \<Rightarrow> int option" where
  "Atoi2 [a, b] =
    (case (digit_val a, digit_val b) of
       (Some x, Some y) \<Rightarrow> Some (10 * x + y)
     | (None, Some y) \<Rightarrow>
         if a = CHR ''+'' then Some y else if a = CHR ''-'' then Some (- y) else None
     | _ \<Rightarrow> None)"
| "Atoi2 _ = None"

definition ref_GenerateFromPassword ::
  "(string \<Rightarrow> int \<Rightarrow> string \<Rightarrow> string) \<Rightarrow> string option \<Rightarrow> string \<Rightarrow> int \<Rightarrow> bcrypt_error + string"
where
  "ref_GenerateFromPassword bf entropy password cost =
    (if length password > 72 then Inl bcrypt_ErrPasswordTooLong
     else
       (let cost' = (if cost < 4 then 10 else cost) in
        if cost' > 31 then Inl (bcrypt_InvalidCostError cost')
        else
          (case entropy of
             None \<Rightarrow> Inl bcrypt_EntropyError
           | Some raw \<Rightarrow>
               (let salt = fit 22 raw in
                Inr (''$2a$'' @ two_digits cost' @ ''$'' @ salt
                       @ fit 31 (bf (expand_key password) cost' salt))))))"

definition ref_newFromHash :: "string \<Rightarrow> bcrypt_error + (int \<times> string \<times> string)" where
  "ref_newFromHash h =
    (if length h < 59 then Inl bcrypt_ErrHashTooShort
     else if h ! 0 \<noteq> CHR ''$'' then Inl (bcrypt_InvalidHashPrefixError (h ! 0))
     else if (of_char (h ! 1) :: nat) > of_char CHR ''2''
       then Inl (bcrypt_HashVersionTooNewError (h ! 1))
     else
       (let rest = drop (if h ! 2 \<noteq> CHR ''$'' then 4 else 3) h in
        case Atoi2 (take 2 rest) of
          None \<Rightarrow> Inl bcrypt_SyntaxError
        | Some cost \<Rightarrow>
            if cost < 4 \<or> cost > 31 then Inl (bcrypt_InvalidCostError cost)
            else Inr (cost, take 22 (drop 3 rest), drop 25 rest)))"

definition ref_CompareHashAndPassword ::
  "(string \<Rightarrow> int \<Rightarrow> string \<Rightarrow> string) \<Rightarrow> string \<Rightarrow> string \<Rightarrow> bcrypt_error option"
where
  "ref_CompareHashAndPassword bf h password =
    (case ref_newFromHash h of
       Inl err \<Rightarrow> Some err
     | Inr (cost, salt, digest) \<Rightarrow>
         if fit 31 (bf (expand_key password) cost salt) = digest then None
         else Some bcrypt_ErrMismatchedHashAndPassword)"

definition bcrypt_ref :: "(string \<Rightarrow> int \<Rightarrow> string \<Rightarrow> string) \<Rightarrow> bcrypt" where
  "bcrypt_ref bf =
    \<lparr>GenerateFromPassword = ref_GenerateFromPassword bf,
     CompareHashAndPassword = ref_CompareHashAndPassword bf\<rparr>"

text \<open>A stand-in for the digest, for evaluating the reference instance on examples.\<close>

definition digest_standin :: "string \<Rightarrow> int \<Rightarrow> string \<Rightarrow> string" where
  "digest_standin key cost salt = take 31 (rev key)"

section \<open>Random passwords\<close>

text \<open>
  \<open>randomInt\<close> reads four bytes from the system's secure source and, when that read
  fails, falls back on the clock. What the environment supplies at one call is a
  \<open>draw\<close>: the four bytes, or the failure together with the clock's reading in
  nanoseconds. The calls of one run consume a sequence \<open>rs\<close> of draws, one each, in order;
  the position in that sequence is threaded through the model.
\<close>

datatype draw = Secure char char char char | Fallback int

text \<open>Go's \<^verbatim>\<open>%\<close> truncates towards zero: the result has the sign of the dividend.\<close>

definition go_rem :: "int \<Rightarrow> int \<Rightarrow> int" where
  "go_rem a b = (if a < 0 then - ((- a) mod \<bar>b\<bar>) else a mod \<bar>b\<bar>)"

definition randomInt :: "draw \<Rightarrow> int \<Rightarrow> int" where
  "randomInt d max' =
    (if max' \<le> 0 then 0
     else
       (case d of
          Fallback t \<Rightarrow> go_rem t max'
        | Secure b0 b1 b2 b3 \<Rightarrow>
            (let n = push_bit 24 (of_char b0) OR push_bit 16 (of_char b1)
                       OR push_bit 8 (of_char b2) OR of_char b3;
                 n' = (if n < 0 then - n else n)
             in go_rem n' max')))"

text \<open>
  What stops a run: an index outside a string or slice, a length that \<^verbatim>\<open>make\<close> refuses,
  or memory that the machine cannot provide.
\<close>

datatype panic = IndexOutOfRange | MakesliceLenOutOfRange | OutOfMemory

text \<open>
  \<^verbatim>\<open>make([]byte, n)\<close> panics when \<open>n\<close> is negative or above the allocation limit of the
  runtime, \<open>2 ^ 48\<close> bytes on the 64-bit platform of the repository's Dockerfile. Below
  that limit the run still dies when the memory is not there: \<open>mem\<close> is the largest
  length for which the machine provides the slice (and the string made of it at the
  end of the run). Otherwise the slice holds \<open>n\<close> zero bytes.
\<close>

definition maxAlloc :: int where
  "maxAlloc = 2 ^ 48"

definition make_bytes :: "int \<Rightarrow> int \<Rightarrow> panic + string" where
  "make_bytes mem n =
    (if n < 0 \<or> n > maxAlloc then Inl MakesliceLenOutOfRange
     else if n > mem then Inl OutOfMemory
     else Inr (replicate (nat n) (CHR 0x00)))"

definition index_at :: "string \<Rightarrow> int \<Rightarrow> panic + char" where
  "index_at s i = (if 0 \<le> i \<and> i < int (length s) then Inr (s ! nat i) else Inl IndexOutOfRange)"

definition and_then :: "'e + 'a \<Rightarrow> ('a \<Rightarrow> 'e + 'b) \<Rightarrow> 'e + 'b" where
  "and_then m f = (case m of Inl e \<Rightarrow> Inl e | Inr x \<Rightarrow> f x)"

definition lowercase :: string where
  "lowercase = ''abcdefghijklmnopqrstuvwxyz''"

definition uppercase :: string where
  "uppercase = ''ABCDEFGHIJKLMNOPQRSTUVWXYZ''"

definition digits :: string where
  "digits = ''0123456789''"

definition special :: string where
  "special = ''!@#$%^&*()_+-=[]{}|;:,.<>?''"

text \<open>
  One of the four steps that build the character set and the required characters: the
  state is the character set, the required characters and the position in \<open>rs\<close>.
\<close>

definition add_class ::
  "(nat \<Rightarrow> draw) \<Rightarrow> bool \<Rightarrow> string \<Rightarrow> string \<times> string \<times> nat \<Rightarrow> panic + (string \<times> string \<times> nat)"
where
  "add_class rs enabled cls st =
    (case st of (charset, required, k) \<Rightarrow>
       if enabled then
         and_then (index_at cls (randomInt (rs k) (int (length cls))))
           (\<lambda>ch. Inr (charset @ cls, required @ [ch], k + 1))
       else Inr st)"

text \<open>The loop that places the required characters, from index \<open>i\<close> on.\<close>

fun place_required :: "string \<Rightarrow> nat \<Rightarrow> string \<Rightarrow> string" where
  "place_required [] i password = password"
| "place_required (ch # rest) i password =
     place_required rest (i + 1) (if i < length password then password[i := ch] else password)"

text \<open>The loop that fills the remaining positions, and the shuffle.\<close>

function fill :: "(nat \<Rightarrow> draw) \<Rightarrow> string \<Rightarrow> nat \<Rightarrow> nat \<Rightarrow> string \<Rightarrow> panic + (string \<times> nat)" where
  "fill rs charset i k password =
    (if i < length password then
       and_then (index_at charset (randomInt (rs k) (int (length charset))))
         (\<lambda>ch. fill rs charset (i + 1) (k + 1) (password[i := ch]))
     else Inr (password, k))"
  by pat_completeness auto
termination
  by (relation "measure (\<lambda>(rs, charset, i, k, password). length password - i)") auto

function shuffle :: "(nat \<Rightarrow> draw) \<Rightarrow> nat \<Rightarrow> nat \<Rightarrow> string \<Rightarrow> panic + (string \<times> nat)" where
  "shuffle rs i k password =
    (if i < length password then
       (let j = randomInt (rs k) (int (length password)) in
        if 0 \<le> j \<and> j < int (length password)
        then shuffle rs (i + 1) (k + 1) (password[i := password ! nat j, nat j := password ! i])
        else Inl IndexOutOfRange)
     else Inr (password, k))"
  by pat_completeness auto
termination
  by (relation "measure (\<lambda>(rs, i, k, password). length password - i)") auto

definition GenerateRandomPassword ::
  "(nat \<Rightarrow> draw) \<Rightarrow> int \<Rightarrow> Manager \<Rightarrow> int \<Rightarrow> panic + (string \<times> error option)"
where
  "GenerateRandomPassword rs mem pm length0 =
    (let cfg = config pm;
         length1 = (if length0 < MinLength cfg then MinLength cfg else length0);
         length2 = (if length1 > MaxLength cfg then MaxLength cfg else length1)
     in
     and_then (add_class rs (RequireLower cfg) lowercase ([], [], 0)) (\<lambda>st1.
     and_then (add_class rs (RequireUpper cfg) uppercase st1) (\<lambda>st2.
     and_then (add_class rs (RequireDigit cfg) digits st2) (\<lambda>st3.
     and_then (add_class rs (RequireSpecial cfg) special st3) (\<lambda>(charset0, required, k).
       let charset = (if charset0 = [] then lowercase @ uppercase @ digits else charset0) in
       and_then (make_bytes mem length2) (\<lambda>zeros.
         let password0 = place_required required 0 zeros in
         and_then (fill rs charset (length required) k password0) (\<lambda>(password1, k1).
         and_then (shuffle rs 0 k1 password1) (\<lambda>(password2, k2).
           Inr (password2, None)))))))))"

text \<open>
  The draws that keep every index in range: a secure read, or a fall-back at a clock
  reading that is not negative (any time after 1970).
\<close>

fun usable :: "draw \<Rightarrow> bool" where
  "usable (Secure b0 b1 b2 b3) = True"
| "usable (Fallback t) = (0 \<le> t)"


definition clamp_length :: "Config \<Rightarrow> int \<Rightarrow> int" where
  "clamp_length cfg n = min (MaxLength cfg) (max (MinLength cfg) n)"

text \<open>
  Two sequences of draws for examples: in the first every secure read succeeds; in the
  second every one fails and the clock is read instead, at nanosecond readings of
  31 October 2025.
\<close>

definition draws_secure :: "nat \<Rightarrow> draw" where
  "draws_secure k = Secure (CHR 0x00) (CHR 0x00) (CHR 0x00) (char_of k)"

definition draws_fallback :: "nat \<Rightarrow> draw" where
  "draws_fallback k = Fallback (1761868800000003760 + int k)"

text \<open>The secure read whose four bytes are the number \<open>v\<close>, most significant byte first.\<close>

definition secure_of :: "int \<Rightarrow> draw" where
  "secure_of v =
    Secure (char_of (drop_bit 24 v)) (char_of (drop_bit 16 v)) (char_of (drop_bit 8 v))
      (char_of v)"

fun is_secure :: "draw \<Rightarrow> bool" where
  "is_secure (Secure b0 b1 b2 b3) = True"
| "is_secure (Fallback t) = False"


text \<open>A policy whose bounds are crossed, and draws that fall back at a clock before 1970.\<close>

definition policy_min_above_max :: Manager where
  "policy_min_above_max = NewWithConfig
    \<lparr>MinLength = 10, MaxLength = 9, RequireUpper = False, RequireLower = False,
     RequireDigit = False, RequireSpecial = False, BcryptCost = 12\<rparr>"

definition draws_before_epoch :: "nat \<Rightarrow> draw" where
  "draws_before_epoch k = Fallback (- 1 - int k)"

text \<open>A policy with a minimum length of one.\<close>

definition policy_min_one :: Manager where
  "policy_min_one = NewWithConfig
    \<lparr>MinLength = 1, MaxLength = 128, RequireUpper = False, RequireLower = False,
     RequireDigit = False, RequireSpecial = False, BcryptCost = 12\<rparr>"

section \<open>Facts about the model\<close>

subsection \<open>ASCII bytes and decoded code points\<close>

lemma mod_window:
  fixes n m q :: nat
  assumes "q * m \<le> n" "n < q * m + m"
  shows "n mod m = n - q * m"
proof -
  have "n = (n - q * m) + q * m" using assms by simp
  then have "n mod m = (n - q * m) mod m" by (metis mod_mult_self1)
  also have "\<dots> = n - q * m" using assms by simp
  finally show ?thesis .
qed

lemma lead2_mod: "192 \<le> (n::nat) \<Longrightarrow> n \<le> 223 \<Longrightarrow> n mod 32 = n - 192"
  using mod_window[of 6 32 n] by simp

lemma lead3_mod: "224 \<le> (n::nat) \<Longrightarrow> n \<le> 239 \<Longrightarrow> n mod 16 = n - 224"
  using mod_window[of 14 16 n] by simp

lemma lead4_mod: "240 \<le> (n::nat) \<Longrightarrow> n \<le> 247 \<Longrightarrow> n mod 8 = n - 240"
  using mod_window[of 30 8 n] by simp

lemma cont_mod: "128 \<le> (n::nat) \<Longrightarrow> n \<le> 191 \<Longrightarrow> n mod 64 = n - 128"
  using mod_window[of 2 64 n] by simp

lemmas utf8_mods = lead2_mod lead3_mod lead4_mod cont_mod

text \<open>A decoded code point below \<open>0x80\<close> is the first byte itself, read alone.\<close>

lemma decodeRune_ascii:
  assumes "decodeRune c cs = (r, w)" "r < 0x80"
  shows "r = of_char c \<and> w = 1"
  using assms
  by (auto simp: Let_def RuneError_def byte_in_def low6_def second_lo_def second_hi_def utf8_mods
      split: if_splits list.splits)

text \<open>The bytes a multi-byte encoding consumes after the first are all from \<open>0x80\<close> on.\<close>

lemma decodeRune_skipped:
  assumes "decodeRune c cs = (r, w)"
  shows "\<forall>b \<in> set (take (w - 1) cs). (0x80::nat) \<le> of_char b"
  using assms
  by (auto simp: Let_def byte_in_def second_lo_def split: if_splits list.splits)

lemma decodeRune_first:
  assumes "decodeRune c cs = (r, w)" "(of_char c :: nat) < 0x80"
  shows "r = of_char c \<and> w = 1"
  using assms by (auto simp: Let_def)

lemma runes_ascii_iff:
  "r < 0x80 \<Longrightarrow> r \<in> set (runes s) \<longleftrightarrow> (\<exists>c \<in> set s. of_char c = r)"
proof (induction s rule: runes.induct)
  case 1
  then show ?case by simp
next
  case (2 c cs)
  obtain r0 w where d: "decodeRune c cs = (r0, w)" by (cases "decodeRune c cs")
  have IH: "r \<in> set (runes (drop (w - 1) cs)) \<longleftrightarrow> (\<exists>c \<in> set (drop (w - 1) cs). of_char c = r)"
    using 2 d by simp
  have skipped: "\<forall>b \<in> set (take (w - 1) cs). (0x80::nat) \<le> of_char b"
    using decodeRune_skipped[OF d] .
  have parts: "set cs = set (take (w - 1) cs) \<union> set (drop (w - 1) cs)"
    by (metis append_take_drop_id set_append)
  have tail: "(\<exists>c \<in> set cs. of_char c = r) \<longleftrightarrow> (\<exists>c \<in> set (drop (w - 1) cs). of_char c = r)"
    using parts skipped \<open>r < 0x80\<close> by fastforce
  have head: "r0 = r \<longleftrightarrow> of_char c = r"
  proof
    assume "r0 = r"
    then show "of_char c = r" using decodeRune_ascii[OF d] \<open>r < 0x80\<close> by simp
  next
    assume "of_char c = r"
    then show "r0 = r" using decodeRune_first[OF d] \<open>r < 0x80\<close> by simp
  qed
  show ?case
    using d IH tail head by (simp del: decodeRune.simps) blast
qed

lemma list_ex_runes_range:
  assumes "hi < 0x80"
  shows "list_ex (\<lambda>r. lo \<le> r \<and> r \<le> hi) (runes s)
         \<longleftrightarrow> (\<exists>c \<in> set s. lo \<le> (of_char c :: nat) \<and> (of_char c :: nat) \<le> hi)"
proof
  assume "list_ex (\<lambda>r. lo \<le> r \<and> r \<le> hi) (runes s)"
  then obtain r where r: "r \<in> set (runes s)" "lo \<le> r" "r \<le> hi"
    by (auto simp: list_ex_iff)
  then have "r < 0x80" using assms by simp
  then obtain c where "c \<in> set s" "of_char c = r"
    using r(1) runes_ascii_iff by blast
  then show "\<exists>c \<in> set s. lo \<le> (of_char c :: nat) \<and> (of_char c :: nat) \<le> hi"
    using r by blast
next
  assume "\<exists>c \<in> set s. lo \<le> (of_char c :: nat) \<and> (of_char c :: nat) \<le> hi"
  then obtain c where c: "c \<in> set s" "lo \<le> (of_char c :: nat)" "(of_char c :: nat) \<le> hi"
    by blast
  then have "(of_char c :: nat) < 0x80" using assms by simp
  then have "of_char c \<in> set (runes s)"
    using c(1) runes_ascii_iff by blast
  then show "list_ex (\<lambda>r. lo \<le> r \<and> r \<le> hi) (runes s)"
    using c by (auto simp: list_ex_iff)
qed

lemma containsUpper_iff: "containsUpper s \<longleftrightarrow> (\<exists>c \<in> set s. is_upper c)"
  unfolding containsUpper_def is_upper_def by (rule list_ex_runes_range) simp

lemma containsLower_iff: "containsLower s \<longleftrightarrow> (\<exists>c \<in> set s. is_lower c)"
  unfolding containsLower_def is_lower_def by (rule list_ex_runes_range) simp

lemma containsDigit_iff: "containsDigit s \<longleftrightarrow> (\<exists>c \<in> set s. is_digit c)"
  unfolding containsDigit_def is_digit_def by (rule list_ex_runes_range) simp

lemma runes_specialChars: "runes specialChars = map of_char specialChars"
  unfolding specialChars_def by code_simp

lemma specialChars_ascii: "\<forall>c \<in> set specialChars. (of_char c :: nat) < 0x80"
  unfolding specialChars_def by simp

lemma containsSpecial_iff: "containsSpecial s \<longleftrightarrow> (\<exists>c \<in> set s. is_special c)"
proof -
  have "containsSpecial s \<longleftrightarrow> (\<exists>r \<in> set (runes s). r \<in> of_char ` set specialChars)"
    unfolding containsSpecial_def runes_specialChars by (auto simp: list_ex_iff)
  also have "\<dots> \<longleftrightarrow> (\<exists>d \<in> set specialChars. (of_char d :: nat) \<in> set (runes s))"
    by blast
  also have "\<dots> \<longleftrightarrow> (\<exists>d \<in> set specialChars. \<exists>c \<in> set s. (of_char c :: nat) = of_char d)"
    using runes_ascii_iff specialChars_ascii by blast
  also have "\<dots> \<longleftrightarrow> (\<exists>c \<in> set s. c \<in> set specialChars)"
    by (metis of_char_eq_iff)
  finally show ?thesis by (simp add: is_special_def)
qed

lemmas contains_iff = containsUpper_iff containsLower_iff containsDigit_iff containsSpecial_iff

subsection \<open>Validation\<close>

lemma Valid_fail_with:
  "Valid (if c then fail_with m s v else v) = (Valid v \<and> \<not> c)"
  by (simp add: fail_with_def)

lemma Errors_fail_with:
  "Errors (if c then fail_with m s v else v) = Errors v @ (if c then [m] else [])"
  by (simp add: fail_with_def)

lemma Validate_Valid_chars:
  "Valid (Validate ul pm p) \<longleftrightarrow>
     (MinLength (config pm) \<le> int (length p) \<and> int (length p) \<le> MaxLength (config pm)
      \<and> (RequireUpper (config pm) \<longrightarrow> (\<exists>c \<in> set p. is_upper c))
      \<and> (RequireLower (config pm) \<longrightarrow> (\<exists>c \<in> set p. is_lower c))
      \<and> (RequireDigit (config pm) \<longrightarrow> (\<exists>c \<in> set p. is_digit c))
      \<and> (RequireSpecial (config pm) \<longrightarrow> (\<exists>c \<in> set p. is_special c)))"
proof -
  have "Valid (Validate ul pm p) \<longleftrightarrow>
     (\<not> int (length p) < MinLength (config pm) \<and> \<not> int (length p) > MaxLength (config pm)
      \<and> \<not> (RequireUpper (config pm) \<and> \<not> containsUpper p)
      \<and> \<not> (RequireLower (config pm) \<and> \<not> containsLower p)
      \<and> \<not> (RequireDigit (config pm) \<and> \<not> containsDigit p)
      \<and> \<not> (RequireSpecial (config pm) \<and> \<not> containsSpecial p))"
    unfolding Validate_def Let_def
    by (simp add: Valid_fail_with case_prod_unfold split del: if_split)
  then show ?thesis
    unfolding contains_iff by (simp add: not_less)
qed

lemma Validate_Score: "Score (Validate ul pm p) = score_of ul p"
  unfolding Validate_def calculateStrength_def Let_def by simp

lemma b2i_bounds: "0 \<le> b2i b" "b2i b \<le> 1"
  by (simp_all add: b2i_def)

lemma score_of_le_10: "score_of ul p \<le> 10"
proof -
  let ?n = "int (length p)"
  have len: "b2i (?n \<ge> 8) + b2i (?n \<ge> 12) + b2i (?n \<ge> 16) \<le> 3"
    using b2i_bounds(2)[of "?n \<ge> 8"] b2i_bounds(2)[of "?n \<ge> 12"] b2i_bounds(2)[of "?n \<ge> 16"]
    by linarith
  have cls: "b2i (containsLower p) + b2i (containsUpper p) + b2i (containsDigit p)
             + 2 * b2i (containsSpecial p) \<le> 5"
    using b2i_bounds(2)[of "containsLower p"] b2i_bounds(2)[of "containsUpper p"]
      b2i_bounds(2)[of "containsDigit p"] b2i_bounds(2)[of "containsSpecial p"]
    by linarith
  have pat: "b2i (\<not> hasRepeatingChars p) + b2i (\<not> hasSequentialChars ul p) \<le> 2"
    using b2i_bounds(2)[of "\<not> hasRepeatingChars p"] b2i_bounds(2)[of "\<not> hasSequentialChars ul p"]
    by linarith
  show ?thesis
    unfolding score_of_def Let_def using len cls pat by linarith
qed


subsection \<open>Length messages\<close>

lemma Validate_Errors:
  "Errors (Validate ul pm p) =
     (if int (length p) < MinLength (config pm) then [msgTooShort (config pm)] else [])
   @ (if int (length p) > MaxLength (config pm) then [msgTooLong (config pm)] else [])
   @ (if RequireUpper (config pm) \<and> \<not> containsUpper p
      then [''Password must contain at least one uppercase letter''] else [])
   @ (if RequireLower (config pm) \<and> \<not> containsLower p
      then [''Password must contain at least one lowercase letter''] else [])
   @ (if RequireDigit (config pm) \<and> \<not> containsDigit p
      then [''Password must contain at least one digit''] else [])
   @ (if RequireSpecial (config pm) \<and> \<not> containsSpecial p
      then [''Password must contain at least one special character''] else [])"
  unfolding Validate_def Let_def
  by (simp add: Errors_fail_with case_prod_unfold split del: if_split)

lemma in_set_if_single: "x \<in> set (if c then [m] else []) \<longleftrightarrow> c \<and> x = m"
  by auto

lemma msgTooShort_distinct:
  "msgTooShort cfg \<noteq> msgTooLong cfg'"
  "msgTooShort cfg \<noteq> ''Password must contain at least one uppercase letter''"
  "msgTooShort cfg \<noteq> ''Password must contain at least one lowercase letter''"
  "msgTooShort cfg \<noteq> ''Password must contain at least one digit''"
  "msgTooShort cfg \<noteq> ''Password must contain at least one special character''"
  by (simp_all add: msgTooShort_def msgTooLong_def)

lemma msgTooLong_distinct:
  "msgTooLong cfg \<noteq> msgTooShort cfg'"
  "msgTooLong cfg \<noteq> ''Password must contain at least one uppercase letter''"
  "msgTooLong cfg \<noteq> ''Password must contain at least one lowercase letter''"
  "msgTooLong cfg \<noteq> ''Password must contain at least one digit''"
  "msgTooLong cfg \<noteq> ''Password must contain at least one special character''"
  by (simp_all add: msgTooShort_def msgTooLong_def)

lemma flagged_too_short_iff:
  "msgTooShort (config pm) \<in> set (Errors (Validate ul pm p))
   \<longleftrightarrow> int (length p) < MinLength (config pm)"
  unfolding Validate_Errors set_append Un_iff in_set_if_single
  using msgTooShort_distinct[of "config pm"] by blast

lemma flagged_too_long_iff:
  "msgTooLong (config pm) \<in> set (Errors (Validate ul pm p))
   \<longleftrightarrow> int (length p) > MaxLength (config pm)"
  unfolding Validate_Errors set_append Un_iff in_set_if_single
  using msgTooLong_distinct[of "config pm"] by blast

lemma runes_Nil_iff: "runes s = [] \<longleftrightarrow> s = []"
  by (cases s) (simp_all split: prod.split del: decodeRune.simps)

text \<open>A string of \<open>k\<close> two-byte characters: \<open>k\<close> characters, \<open>2 * k\<close> bytes.\<close>

lemma runes_two_byte:
  "runes (concat (replicate k [CHR 0xC3, CHR 0xA9])) = replicate k 0xE9"
proof (induction k)
  case 0
  then show ?case by simp
next
  case (Suc k)
  have "decodeRune (CHR 0xC3) (CHR 0xA9 # concat (replicate k [CHR 0xC3, CHR 0xA9])) = (0xE9, 2)"
    by (simp add: byte_in_def low6_def)
  then show ?case using Suc by (simp del: decodeRune.simps)
qed

lemma short_in_characters:
  assumes "2 \<le> m"
  shows "\<exists>s. int (RuneCount s) < m \<and> m \<le> int (length s)"
proof -
  let ?k = "nat ((m + 1) div 2)"
  let ?s = "concat (replicate ?k [CHR 0xC3, CHR 0xA9])"
  have "length ?s = 2 * ?k"
    by (induction ?k) (simp_all add: length_concat sum_list_replicate)
  moreover have "RuneCount ?s = ?k"
    by (simp add: RuneCount_def runes_two_byte)
  ultimately have "int (RuneCount ?s) < m \<and> m \<le> int (length ?s)"
    using assms by simp linarith
  then show ?thesis by blast
qed

subsection \<open>Construction\<close>

lemma NewWithConfig_cost_range:
  "4 \<le> BcryptCost (config (NewWithConfig cfg)) \<and> BcryptCost (config (NewWithConfig cfg)) \<le> 31"
  by (simp add: NewWithConfig_def Let_def)

lemma NewWithConfig_defaults:
  "MinLength (config (NewWithConfig cfg)) = (if MinLength cfg = 0 then 8 else MinLength cfg)"
  "MaxLength (config (NewWithConfig cfg)) = (if MaxLength cfg = 0 then 128 else MaxLength cfg)"
  "BcryptCost cfg = 0 \<Longrightarrow> BcryptCost (config (NewWithConfig cfg)) = 12"
  by (simp_all add: NewWithConfig_def Let_def)

lemma config_New:
  "config New = \<lparr>MinLength = 8, MaxLength = 128, RequireUpper = True, RequireLower = True,
     RequireDigit = True, RequireSpecial = False, BcryptCost = 12\<rparr>"
  by (simp add: New_def NewWithConfig_def)


subsection \<open>The reference instance of bcrypt keeps the contract\<close>

lemma length_fit: "length (fit n s) = n"
  by (simp add: fit_def)

lemma digit_val_char_of:
  assumes "d < 10"
  shows "digit_val (char_of (48 + d)) = Some (int d)"
proof -
  have n: "(of_char (char_of (48 + d)) :: nat) = 48 + d"
    using assms by simp
  have "(of_char (char_of (48 + d)) :: int) = int (of_char (char_of (48 + d)))"
    by (simp only: of_nat_of_char)
  then have i: "(of_char (char_of (48 + d)) :: int) = 48 + int d"
    unfolding n by simp
  show ?thesis
    unfolding digit_val_def is_digit_def n i using assms by simp
qed

lemma Atoi2_two_digits:
  assumes "0 \<le> c" "c < 100"
  shows "Atoi2 (two_digits c) = Some c"
proof -
  have d1: "nat c div 10 < 10" and d2: "nat c mod 10 < 10"
    using assms by auto
  have "int (nat c div 10) * 10 + int (nat c mod 10) = c"
    using assms by (metis div_mult_mod_eq int_nat_eq of_nat_add of_nat_mult of_nat_numeral)
  then show ?thesis
    unfolding two_digits_def
    by (simp add: digit_val_char_of[OF d1] digit_val_char_of[OF d2] mult.commute)
qed

lemma ref_newFromHash_encoded:
  assumes "4 \<le> c" "c \<le> 31" "length salt = 22" "length dg = 31"
  shows "ref_newFromHash (''$2a$'' @ two_digits c @ ''$'' @ salt @ dg) = Inr (c, salt, dg)"
proof -
  have two: "two_digits c = [char_of (48 + nat c div 10), char_of (48 + nat c mod 10)]"
    by (simp add: two_digits_def)
  have at: "Atoi2 [char_of (48 + nat c div 10), char_of (48 + nat c mod 10)] = Some c"
    using Atoi2_two_digits[of c] assms by (simp add: two_digits_def)
  show ?thesis
    unfolding ref_newFromHash_def two using assms at
    by (simp add: Let_def)
qed

lemma bcrypt_ref_sound: "bcrypt_sound (bcrypt_ref bf)"
  unfolding bcrypt_sound_def
proof (intro allI impI)
  fix raw password :: string and cost :: int
  assume a: "length password \<le> 72 \<and> cost \<le> 31"
  define c where "c = (if cost < 4 then 10 else cost)"
  define salt where "salt = fit 22 raw"
  define dg where "dg = fit 31 (bf (expand_key password) c salt)"
  define h where "h = ''$2a$'' @ two_digits c @ ''$'' @ salt @ dg"
  have c: "4 \<le> c" "c \<le> 31" using a by (auto simp: c_def)
  have gen: "GenerateFromPassword (bcrypt_ref bf) (Some raw) password cost = Inr h"
    using a c unfolding bcrypt_ref_def ref_GenerateFromPassword_def h_def dg_def salt_def c_def
    by (simp add: Let_def)
  have parse: "ref_newFromHash h = Inr (c, salt, dg)"
    unfolding h_def using ref_newFromHash_encoded[OF c] by (simp add: salt_def dg_def length_fit)
  have cmp: "CompareHashAndPassword (bcrypt_ref bf) h password = None"
    using parse by (simp add: bcrypt_ref_def ref_CompareHashAndPassword_def dg_def)
  have "h \<noteq> []" by (simp add: h_def)
  with gen cmp
  show "\<exists>h. GenerateFromPassword (bcrypt_ref bf) (Some raw) password cost = Inr h \<and> h \<noteq> []
          \<and> CompareHashAndPassword (bcrypt_ref bf) h password = None"
    by blast
qed

text \<open>What \<open>Hash\<close> returns on the reference instance, and what \<open>Verify\<close> makes of it.\<close>

lemma HashString_ref:
  assumes "HashString ul (bcrypt_ref bf) now (Some raw) pm p = Inr h"
  defines "c \<equiv> (if BcryptCost (config pm) < 4 then 10 else BcryptCost (config pm))"
  shows "c \<le> 31 \<and> length p \<le> 72 \<and> Valid (Validate ul pm p)
         \<and> h = ''$2a$'' @ two_digits c @ ''$'' @ fit 22 raw
                @ fit 31 (bf (expand_key p) c (fit 22 raw))"
  using assms(1)
  unfolding HashString_def Manager_Hash_def bcrypt_ref_def ref_GenerateFromPassword_def c_def
  by (auto simp: Let_def split: if_splits sum.splits)

lemma Verify_ref_encoded:
  assumes "4 \<le> c" "c \<le> 31"
  shows "Verify (bcrypt_ref bf) pm p2
           (''$2a$'' @ two_digits c @ ''$'' @ fit 22 raw @ fit 31 dg) =
         (if fit 31 (bf (expand_key p2) c (fit 22 raw)) = fit 31 dg then None
          else Some (Sentinel ErrVerificationFailed))"
proof -
  have parse: "ref_newFromHash (''$2a$'' @ two_digits c @ ''$'' @ fit 22 raw @ fit 31 dg)
               = Inr (c, fit 22 raw, fit 31 dg)"
    using ref_newFromHash_encoded[OF assms] by (simp add: length_fit)
  show ?thesis
    using parse by (simp add: Verify_def bcrypt_ref_def ref_CompareHashAndPassword_def)
qed

lemma Verify_after_Hash_ref:
  assumes "HashString ul (bcrypt_ref bf) now (Some raw) pm p = Inr h"
  defines "c \<equiv> (if BcryptCost (config pm) < 4 then 10 else BcryptCost (config pm))"
  shows "Verify (bcrypt_ref bf) pm p2 h =
         (if fit 31 (bf (expand_key p2) c (fit 22 raw)) = fit 31 (bf (expand_key p) c (fit 22 raw))
          then None else Some (Sentinel ErrVerificationFailed))"
proof -
  have h: "c \<le> 31" "h = ''$2a$'' @ two_digits c @ ''$'' @ fit 22 raw
                @ fit 31 (bf (expand_key p) c (fit 22 raw))"
    using HashString_ref[OF assms(1)] by (simp_all add: c_def)
  have "4 \<le> c" by (simp add: c_def)
  then show ?thesis
    unfolding h(2) using Verify_ref_encoded[of c bf pm p2 raw] h(1) by simp
qed

subsection \<open>Hash and Verify\<close>

lemma Manager_Hash_invalid:
  "\<not> Valid (Validate ul pm p) \<Longrightarrow>
   Manager_Hash ul B now entropy pm p =
     Inl (Wrapped ErrPasswordTooWeak (Text (Join (Errors (Validate ul pm p)) '', '')))"
  by (simp add: Manager_Hash_def)

lemma Verify_InvalidHash_iff:
  "Verify B pm p h = Some (Sentinel ErrInvalidHash) \<longleftrightarrow> h = []"
  by (simp add: Verify_def split: option.split)

lemma Verify_nonempty:
  assumes "h \<noteq> []"
  shows "Verify B pm p h =
    (case CompareHashAndPassword B h p of
       None \<Rightarrow> None
     | Some err \<Rightarrow>
         if err = bcrypt_ErrMismatchedHashAndPassword then Some (Sentinel ErrVerificationFailed)
         else Some (Wrapped ErrVerificationFailed (Cause err)))"
  using assms by (simp add: Verify_def)


lemma Manager_Hash_valid:
  "Valid (Validate ul pm p) \<Longrightarrow>
   Manager_Hash ul B now entropy pm p =
     (case GenerateFromPassword B entropy p (BcryptCost (config pm)) of
        Inl err \<Rightarrow> Inl (Wrapped ErrHashingFailed (Cause err))
      | Inr hashBytes \<Rightarrow>
          Inr \<lparr>Hash = hashBytes, Algorithm = ''bcrypt'', Cost = BcryptCost (config pm),
               CreatedAt = now\<rparr>)"
  by (simp add: Manager_Hash_def)

text \<open>Of a password of 72 bytes or more, the key schedule reads the first 72 bytes.\<close>

lemma expand_key_long: "72 \<le> length p \<Longrightarrow> expand_key p = take 72 p"
proof -
  assume a: "72 \<le> length p"
  have "replicate 72 (p @ [CHR 0x00]) = (p @ [CHR 0x00]) # replicate 71 (p @ [CHR 0x00])"
    by (simp add: numeral_eq_Suc)
  then show ?thesis
    unfolding expand_key_def using a by simp
qed

lemma HashString_ref_valid:
  assumes "Valid (Validate ul pm p)" "length p \<le> 72" "4 \<le> BcryptCost (config pm)"
    "BcryptCost (config pm) \<le> 31"
  shows "HashString ul (bcrypt_ref bf) now (Some raw) pm p =
         Inr (''$2a$'' @ two_digits (BcryptCost (config pm)) @ ''$'' @ fit 22 raw
              @ fit 31 (bf (expand_key p) (BcryptCost (config pm)) (fit 22 raw)))"
  using assms
  by (simp add: HashString_def Manager_Hash_valid bcrypt_ref_def ref_GenerateFromPassword_def
      Let_def)

lemma Valid_New:
  "Valid (Validate ul New p) \<longleftrightarrow>
     (8 \<le> length p \<and> length p \<le> 128 \<and> (\<exists>c \<in> set p. is_upper c)
      \<and> (\<exists>c \<in> set p. is_lower c) \<and> (\<exists>c \<in> set p. is_digit c))"
  by (simp add: Validate_Valid_chars config_New)

lemma Passw0rd_classes:
  "is_upper CHR ''P''" "is_lower CHR ''a''" "is_digit CHR ''0''"
  by (simp_all add: is_upper_def is_lower_def is_digit_def)

subsection \<open>Random indices\<close>

lemma of_char_int_nonneg: "(0::int) \<le> of_char c"
  by (metis of_nat_0_le_iff of_nat_of_char)

lemma randomInt_range:
  assumes "usable d" "0 < m"
  shows "0 \<le> randomInt d m \<and> randomInt d m < m"
proof (cases d)
  case (Secure b0 b1 b2 b3)
  let ?n = "push_bit 24 (of_char b0) OR push_bit 16 (of_char b1)
              OR push_bit 8 (of_char b2) OR (of_char b3 :: int)"
  have "0 \<le> ?n"
    by (simp add: of_char_int_nonneg)
  then show ?thesis
    using assms(2) Secure by (simp add: randomInt_def go_rem_def Let_def)
next
  case (Fallback t)
  then show ?thesis
    using assms by (simp add: randomInt_def go_rem_def)
qed

lemma index_at_random:
  assumes "usable d" "cls \<noteq> []"
  shows "\<exists>ch \<in> set cls. index_at cls (randomInt d (int (length cls))) = Inr ch"
proof -
  have "0 < int (length cls)" using assms(2) by simp
  then have r: "0 \<le> randomInt d (int (length cls))"
      "randomInt d (int (length cls)) < int (length cls)"
    using randomInt_range[OF assms(1)] by blast+
  then have "nat (randomInt d (int (length cls))) < length cls" by simp
  then have "cls ! nat (randomInt d (int (length cls))) \<in> set cls" by simp
  then show ?thesis using r by (simp add: index_at_def)
qed

lemma and_then_Inr [simp]: "and_then (Inr x) f = f x"
  by (simp add: and_then_def)

lemma and_then_Inl [simp]: "and_then (Inl e) f = Inl e"
  by (simp add: and_then_def)

subsection \<open>The steps of the generator\<close>

lemma add_class_enabled:
  assumes "usable (rs k)" "cls \<noteq> []"
  shows "\<exists>ch \<in> set cls. add_class rs True cls (charset, required, k)
           = Inr (charset @ cls, required @ [ch], k + 1)"
  using index_at_random[of "rs k" cls] assms by (auto simp: add_class_def)

lemma add_class_disabled:
  "add_class rs False cls st = Inr st"
  by (simp add: add_class_def split: prod.split)

text \<open>
  One step either leaves the state alone or appends the class to the character set and
  one of its characters to the required ones.
\<close>

lemma add_class_step:
  assumes "usable (rs k)" "cls \<noteq> []"
  shows "\<exists>charset' required' k'.
           add_class rs en cls (charset, required, k) = Inr (charset', required', k')
           \<and> length required' = length required + (if en then 1 else 0)
           \<and> set required \<subseteq> set required'
           \<and> (en \<longrightarrow> (\<exists>ch \<in> set cls. ch \<in> set required'))
           \<and> (charset' = [] \<longleftrightarrow> charset = [] \<and> \<not> en)
           \<and> k' = k + (if en then 1 else 0)
           \<and> length charset' \<le> length charset + length cls"
proof (cases en)
  case True
  then show ?thesis
    using add_class_enabled[of rs k cls charset required] assms by auto
next
  case False
  then show ?thesis by (simp add: add_class_disabled)
qed


lemma fill_ok:
  assumes "\<forall>k. usable (rs k)" "charset \<noteq> []"
  shows "\<exists>password' k'. fill rs charset i k password = Inr (password', k')
           \<and> length password' = length password \<and> take i password' = take i password
           \<and> k' = k + (length password - i)"
  using assms
proof (induction rs charset i k password rule: fill.induct)
  case (1 rs charset i k password)
  show ?case
  proof (cases "i < length password")
    case True
    obtain ch where ch: "index_at charset (randomInt (rs k) (int (length charset))) = Inr ch"
      using index_at_random[of "rs k" charset] 1(2,3) by blast
    obtain password' k' where r:
      "fill rs charset (i + 1) (k + 1) (password[i := ch]) = Inr (password', k')"
      "length password' = length (password[i := ch])"
      "take (i + 1) password' = take (i + 1) (password[i := ch])"
      "k' = k + 1 + (length (password[i := ch]) - (i + 1))"
      using 1(1)[OF True, of ch] 1(2,3) by blast
    have "take i password' = take i (take (i + 1) password')"
      by (simp add: min_def)
    also have "\<dots> = take i (password[i := ch])"
      unfolding r(3) by (simp add: min_def)
    also have "\<dots> = take i password"
      by simp
    finally have t: "take i password' = take i password" .
    have "fill rs charset i k password = Inr (password', k')"
      using True ch r(1) by (subst fill.simps) simp
    moreover have "k' = k + (length password - i)"
      using r(4) True by simp
    ultimately show ?thesis using r(2) t by simp
  next
    case False
    then show ?thesis by (subst fill.simps) simp
  qed
qed



lemma length_place_required:
  "length (place_required required i password) = length password"
  by (induction required arbitrary: i password) simp_all


lemma classes_nonempty:
  "lowercase \<noteq> []" "uppercase \<noteq> []" "digits \<noteq> []" "special \<noteq> []"
  by (simp_all add: lowercase_def uppercase_def digits_def special_def)

lemma clamp_length_code:
  "(if (if n < MinLength cfg then MinLength cfg else n) > MaxLength cfg then MaxLength cfg
    else (if n < MinLength cfg then MinLength cfg else n)) = clamp_length cfg n"
  by (simp add: clamp_length_def min_def max_def)





subsection \<open>Every run on usable draws is also a run on secure reads\<close>

lemma bytes_or:
  "push_bit 24 (take_bit 8 (drop_bit 24 v)) OR push_bit 16 (take_bit 8 (drop_bit 16 v))
     OR push_bit 8 (take_bit 8 (drop_bit 8 v)) OR take_bit 8 v = take_bit 32 (v::int)"
proof (rule bit_eqI)
  fix n :: nat
  consider "n < 8" | "8 \<le> n \<and> n < 16" | "16 \<le> n \<and> n < 24" | "24 \<le> n \<and> n < 32" | "32 \<le> n"
    by linarith
  then show "bit (push_bit 24 (take_bit 8 (drop_bit 24 v)) OR push_bit 16 (take_bit 8 (drop_bit 16 v))
     OR push_bit 8 (take_bit 8 (drop_bit 8 v)) OR take_bit 8 v) n = bit (take_bit 32 v) n"
    by cases (auto simp: bit_simps)
qed

lemma of_char_char_of_int: "(of_char (char_of (a::int)) :: int) = take_bit 8 a"
  by (simp add: take_bit_eq_mod)

text \<open>The secure read made of a number below the bound yields that number.\<close>

lemma randomInt_secure_of:
  assumes "0 \<le> v" "v < m" "m \<le> 2 ^ 32"
  shows "randomInt (secure_of v) m = v"
proof -
  have "take_bit 32 v = v"
    using assms by (simp add: take_bit_int_eq_self)
  then have n: "push_bit 24 (of_char (char_of (drop_bit 24 v))) OR push_bit 16 (of_char (char_of (drop_bit 16 v)))
          OR push_bit 8 (of_char (char_of (drop_bit 8 v))) OR (of_char (char_of v) :: int) = v"
    unfolding of_char_char_of_int bytes_or .
  let ?N = "push_bit 24 (of_char (char_of (drop_bit 24 v))) OR push_bit 16 (of_char (char_of (drop_bit 16 v)))
          OR push_bit 8 (of_char (char_of (drop_bit 8 v))) OR (of_char (char_of v) :: int)"
  have "0 < m" using assms by linarith
  then have "randomInt (secure_of v) m = go_rem (if ?N < 0 then - ?N else ?N) m"
    by (simp add: randomInt_def secure_of_def Let_def del: of_char_of)
  also have "\<dots> = v"
    unfolding n using assms(1,2) by (simp add: go_rem_def)
  finally show ?thesis .
qed

lemma randomInt_match:
  assumes "usable d" "m \<le> 2 ^ 32"
  shows "randomInt (secure_of (randomInt d m)) m = randomInt d m"
proof (cases "0 < m")
  case True
  then show ?thesis
    using randomInt_range[OF assms(1) True] randomInt_secure_of assms(2) by blast
next
  case False
  then show ?thesis by (simp add: randomInt_def)
qed

text \<open>Each step reads one draw, at its own position and bound.\<close>

lemma add_class_cong_at:
  assumes "en \<longrightarrow> randomInt (rs' k) (int (length cls)) = randomInt (rs k) (int (length cls))"
  shows "add_class rs' en cls (charset, required, k) = add_class rs en cls (charset, required, k)"
  using assms by (simp add: add_class_def)

lemma fill_cong_range:
  assumes "\<forall>j. k \<le> j \<and> j < k + (length password - i) \<longrightarrow>
             randomInt (rs' j) (int (length charset)) = randomInt (rs j) (int (length charset))"
  shows "fill rs' charset i k password = fill rs charset i k password"
  using assms
proof (induction rs charset i k password rule: fill.induct)
  case (1 rs charset i k password)
  have a: "fill rs charset i k password =
    (if i < length password then
       and_then (index_at charset (randomInt (rs k) (int (length charset))))
         (\<lambda>ch. fill rs charset (i + 1) (k + 1) (password[i := ch]))
     else Inr (password, k))"
    by (rule fill.simps)
  have b: "fill rs' charset i k password =
    (if i < length password then
       and_then (index_at charset (randomInt (rs' k) (int (length charset))))
         (\<lambda>ch. fill rs' charset (i + 1) (k + 1) (password[i := ch]))
     else Inr (password, k))"
    by (rule fill.simps)
  show ?case
  proof (cases "i < length password")
    case True
    have here: "randomInt (rs' k) (int (length charset)) = randomInt (rs k) (int (length charset))"
      using 1(2) True by simp
    have rest: "fill rs' charset (i + 1) (k + 1) (password[i := ch])
               = fill rs charset (i + 1) (k + 1) (password[i := ch])" for ch
    proof (rule 1(1)[OF True])
      show "\<forall>j. k + 1 \<le> j \<and> j < k + 1 + (length (password[i := ch]) - (i + 1)) \<longrightarrow>
             randomInt (rs' j) (int (length charset)) = randomInt (rs j) (int (length charset))"
      proof (intro allI impI)
        fix j assume "k + 1 \<le> j \<and> j < k + 1 + (length (password[i := ch]) - (i + 1))"
        then have "k \<le> j \<and> j < k + (length password - i)"
          using True by simp linarith
        then show "randomInt (rs' j) (int (length charset)) = randomInt (rs j) (int (length charset))"
          using 1(2) by blast
      qed
    qed
    show ?thesis
      unfolding a b using here rest by simp
  next
    case False
    then show ?thesis unfolding a b by simp
  qed
qed

lemma shuffle_cong_range:
  assumes "\<forall>j. k \<le> j \<longrightarrow>
             randomInt (rs' j) (int (length password)) = randomInt (rs j) (int (length password))"
  shows "shuffle rs' i k password = shuffle rs i k password"
  using assms
proof (induction rs i k password rule: shuffle.induct)
  case (1 rs i k password)
  define j where "j = randomInt (rs k) (int (length password))"
  have j': "randomInt (rs' k) (int (length password)) = j"
    using 1(2) by (simp add: j_def)
  let ?pw = "password[i := password ! nat j, nat j := password ! i]"
  have a: "shuffle rs i k password =
    (if i < length password then
       (if 0 \<le> j \<and> j < int (length password)
        then shuffle rs (i + 1) (k + 1) ?pw
        else Inl IndexOutOfRange)
     else Inr (password, k))"
    by (subst shuffle.simps) (simp add: j_def Let_def)
  have b: "shuffle rs' i k password =
    (if i < length password then
       (if 0 \<le> j \<and> j < int (length password)
        then shuffle rs' (i + 1) (k + 1) ?pw
        else Inl IndexOutOfRange)
     else Inr (password, k))"
    by (subst shuffle.simps) (simp add: j' Let_def)
  show ?case
  proof (cases "i < length password \<and> 0 \<le> j \<and> j < int (length password)")
    case True
    have "shuffle rs' (i + 1) (k + 1) ?pw = shuffle rs (i + 1) (k + 1) ?pw"
    proof (rule 1(1)[of j])
      show "i < length password" using True by simp
      show "j = randomInt (rs k) (int (length password))" by (rule j_def)
      show "0 \<le> j \<and> j < int (length password)" using True by simp
      show "\<forall>ja. k + 1 \<le> ja \<longrightarrow>
             randomInt (rs' ja) (int (length ?pw)) = randomInt (rs ja) (int (length ?pw))"
        using 1(2) by simp
    qed
    then show ?thesis unfolding a b by simp
  next
    case False
    then show ?thesis unfolding a b by auto
  qed
qed

text \<open>
  For a run on usable draws whose password has at most \<open>2 ^ 32\<close> bytes there is a
  sequence of secure reads on which the generator does exactly the same.
\<close>

lemma GenerateRandomPassword_secure_twin:
  assumes u: "\<forall>k. usable (rs k)"
    and B: "clamp_length (config pm) n \<le> 2 ^ 32"
  shows "\<exists>rs'. (\<forall>k. is_secure (rs' k))
           \<and> GenerateRandomPassword rs' mem pm n = GenerateRandomPassword rs mem pm n"
proof -
  let ?cfg = "config pm"
  let ?L = "clamp_length ?cfg n"
  have uk: "\<And>k. usable (rs k)" using u by simp
  obtain c1 r1 k1 where s1:
      "add_class rs (RequireLower ?cfg) lowercase ([], [], 0) = Inr (c1, r1, k1)"
      "k1 = 0 + (if RequireLower ?cfg then 1 else 0)"
      "length c1 \<le> length ([]::string) + length lowercase"
    using add_class_step[of rs 0 lowercase "RequireLower ?cfg" "[]" "[]"] uk classes_nonempty(1)
    by blast
  obtain c2 r2 k2 where s2:
      "add_class rs (RequireUpper ?cfg) uppercase (c1, r1, k1) = Inr (c2, r2, k2)"
      "k2 = k1 + (if RequireUpper ?cfg then 1 else 0)"
      "length c2 \<le> length c1 + length uppercase"
    using add_class_step[of rs k1 uppercase "RequireUpper ?cfg" c1 r1] uk classes_nonempty(2)
    by blast
  obtain c3 r3 k3 where s3:
      "add_class rs (RequireDigit ?cfg) digits (c2, r2, k2) = Inr (c3, r3, k3)"
      "k3 = k2 + (if RequireDigit ?cfg then 1 else 0)"
      "length c3 \<le> length c2 + length digits"
    using add_class_step[of rs k2 digits "RequireDigit ?cfg" c2 r2] uk classes_nonempty(3)
    by blast
  obtain c4 r4 k4 where s4:
      "add_class rs (RequireSpecial ?cfg) special (c3, r3, k3) = Inr (c4, r4, k4)"
      "k4 = k3 + (if RequireSpecial ?cfg then 1 else 0)"
      "length c4 \<le> length c3 + length special"
    using add_class_step[of rs k3 special "RequireSpecial ?cfg" c3 r3] uk classes_nonempty(4)
    by blast
  define charset where "charset = (if c4 = [] then lowercase @ uppercase @ digits else c4)"
  define k5 where "k5 = k4 + (nat ?L - length r4)"
  define b :: "nat \<Rightarrow> int" where
    "b j = (if j < k1 then int (length lowercase)
            else if j < k2 then int (length uppercase)
            else if j < k3 then int (length digits)
            else if j < k4 then int (length special)
            else if j < k5 then int (length charset)
            else int (nat ?L))" for j
  define rs' where "rs' j = secure_of (randomInt (rs j) (b j))" for j
  have lens: "length lowercase = 26" "length uppercase = 26" "length digits = 10"
      "length special = 26"
    by (simp_all add: lowercase_def uppercase_def digits_def special_def)
  have "length c4 \<le> 88"
    using s1(3) s2(3) s3(3) s4(3) lens by simp
  then have cl: "length charset \<le> 88"
    by (simp add: charset_def lens)
  have bb: "b j \<le> 2 ^ 32" for j
    using B cl by (simp add: b_def lens)
  have m: "randomInt (rs' j) (b j) = randomInt (rs j) (b j)" for j
    unfolding rs'_def using randomInt_match[OF uk bb] .
  have sec: "\<forall>k. is_secure (rs' k)"
    by (simp add: rs'_def secure_of_def)
  have t1: "add_class rs' (RequireLower ?cfg) lowercase ([], [], 0) = Inr (c1, r1, k1)"
    unfolding s1(1)[symmetric]
  proof (rule add_class_cong_at, rule impI)
    assume "RequireLower ?cfg"
    then have "b 0 = int (length lowercase)" using s1(2) by (simp add: b_def)
    then show "randomInt (rs' 0) (int (length lowercase)) = randomInt (rs 0) (int (length lowercase))"
      using m[of 0] by simp
  qed
  have t2: "add_class rs' (RequireUpper ?cfg) uppercase (c1, r1, k1) = Inr (c2, r2, k2)"
    unfolding s2(1)[symmetric]
  proof (rule add_class_cong_at, rule impI)
    assume "RequireUpper ?cfg"
    then have "b k1 = int (length uppercase)" using s2(2) by (simp add: b_def)
    then show "randomInt (rs' k1) (int (length uppercase)) = randomInt (rs k1) (int (length uppercase))"
      using m[of k1] by simp
  qed
  have t3: "add_class rs' (RequireDigit ?cfg) digits (c2, r2, k2) = Inr (c3, r3, k3)"
    unfolding s3(1)[symmetric]
  proof (rule add_class_cong_at, rule impI)
    assume "RequireDigit ?cfg"
    then have "b k2 = int (length digits)" using s2(2) s3(2) by (simp add: b_def)
    then show "randomInt (rs' k2) (int (length digits)) = randomInt (rs k2) (int (length digits))"
      using m[of k2] by simp
  qed
  have t4: "add_class rs' (RequireSpecial ?cfg) special (c3, r3, k3) = Inr (c4, r4, k4)"
    unfolding s4(1)[symmetric]
  proof (rule add_class_cong_at, rule impI)
    assume "RequireSpecial ?cfg"
    then have "b k3 = int (length special)" using s2(2) s3(2) s4(2) by (simp add: b_def)
    then show "randomInt (rs' k3) (int (length special)) = randomInt (rs k3) (int (length special))"
      using m[of k3] by simp
  qed
  have tail: "GenerateRandomPassword q mem pm n =
      and_then (make_bytes mem ?L) (\<lambda>zeros.
        and_then (fill q charset (length r4) k4 (place_required r4 0 zeros)) (\<lambda>(password1, k).
        and_then (shuffle q 0 k password1) (\<lambda>(password2, k). Inr (password2, None))))"
    if "add_class q (RequireLower ?cfg) lowercase ([], [], 0) = Inr (c1, r1, k1)"
      "add_class q (RequireUpper ?cfg) uppercase (c1, r1, k1) = Inr (c2, r2, k2)"
      "add_class q (RequireDigit ?cfg) digits (c2, r2, k2) = Inr (c3, r3, k3)"
      "add_class q (RequireSpecial ?cfg) special (c3, r3, k3) = Inr (c4, r4, k4)" for q
    unfolding GenerateRandomPassword_def Let_def clamp_length_code
    using that by (simp add: charset_def)
  have after: "and_then (fill rs' charset (length r4) k4 (place_required r4 0 zeros))
                 (\<lambda>(password1, k). and_then (shuffle rs' 0 k password1)
                    (\<lambda>(password2, k). Inr (password2, None)))
             = and_then (fill rs charset (length r4) k4 (place_required r4 0 zeros))
                 (\<lambda>(password1, k). and_then (shuffle rs 0 k password1)
                    (\<lambda>(password2, k). Inr (password2, None)))"
    if z: "make_bytes mem ?L = Inr zeros" for zeros
  proof -
    let ?pw0 = "place_required r4 0 zeros"
    have "zeros = replicate (nat ?L) (CHR 0x00)"
      using z by (auto simp: make_bytes_def split: if_splits)
    then have len0: "length ?pw0 = nat ?L"
      by (simp add: length_place_required)
    have fe: "fill rs' charset (length r4) k4 ?pw0 = fill rs charset (length r4) k4 ?pw0"
    proof (rule fill_cong_range, intro allI impI)
      fix j assume "k4 \<le> j \<and> j < k4 + (length ?pw0 - length r4)"
      then have "b j = int (length charset)"
        using s2(2) s3(2) s4(2) len0 by (simp add: b_def k5_def)
      then show "randomInt (rs' j) (int (length charset)) = randomInt (rs j) (int (length charset))"
        using m[of j] by simp
    qed
    have cs: "charset \<noteq> []"
      using classes_nonempty(1) by (simp add: charset_def)
    obtain pw1 k' where f: "fill rs charset (length r4) k4 ?pw0 = Inr (pw1, k')"
        "length pw1 = length ?pw0" "k' = k4 + (length ?pw0 - length r4)"
      using fill_ok[OF u cs, of "length r4" k4 ?pw0] by blast
    have se: "shuffle rs' 0 k' pw1 = shuffle rs 0 k' pw1"
    proof (rule shuffle_cong_range, intro allI impI)
      fix j assume "k' \<le> j"
      then have "b j = int (length pw1)"
        using s2(2) s3(2) s4(2) f(2,3) len0 by (simp add: b_def k5_def)
      then show "randomInt (rs' j) (int (length pw1)) = randomInt (rs j) (int (length pw1))"
        using m[of j] by simp
    qed
    show ?thesis
      unfolding fe f(1) using se by simp
  qed
  have "GenerateRandomPassword rs' mem pm n = GenerateRandomPassword rs mem pm n"
  proof (cases "make_bytes mem ?L")
    case (Inl e)
    then show ?thesis
      unfolding tail[OF t1 t2 t3 t4] tail[OF s1(1) s2(1) s3(1) s4(1)] by simp
  next
    case (Inr zeros)
    then show ?thesis
      unfolding tail[OF t1 t2 t3 t4] tail[OF s1(1) s2(1) s3(1) s4(1)]
      using after[OF Inr] by simp
  qed
  with sec show ?thesis by blast
qed

text \<open>A length above the allocation limit stops the run, whatever the memory.\<close>

lemma GenerateRandomPassword_above_maxAlloc:
  "GenerateRandomPassword draws_secure mem
     (NewWithConfig \<lparr>MinLength = 8, MaxLength = 2 ^ 62, RequireUpper = False,
        RequireLower = False, RequireDigit = False, RequireSpecial = False, BcryptCost = 12\<rparr>)
     (2 ^ 62)
   = Inl MakesliceLenOutOfRange"
  by (simp add: GenerateRandomPassword_def NewWithConfig_def add_class_disabled make_bytes_def
      maxAlloc_def)

subsection \<open>Where the generator and the hash leave their guarantees\<close>

text \<open>With crossed bounds the generated string has \<open>MaxLength\<close> bytes and is too short.\<close>

lemma GenerateRandomPassword_crossed_bounds:
  "GenerateRandomPassword draws_secure 1000000 policy_min_above_max 10 = Inr (''abcdefghi'', None)
   \<and> \<not> Valid (Validate id policy_min_above_max ''abcdefghi'')"
proof -
  have cfg: "config policy_min_above_max =
    \<lparr>MinLength = 10, MaxLength = 9, RequireUpper = False, RequireLower = False,
     RequireDigit = False, RequireSpecial = False, BcryptCost = 12\<rparr>"
    by (simp add: policy_min_above_max_def NewWithConfig_def)
  have g: "GenerateRandomPassword draws_secure 1000000 policy_min_above_max 10
           = Inr (''abcdefghi'', None)"
    by code_simp
  show ?thesis
    using g by (simp add: Validate_Valid_chars cfg)
qed

text \<open>A fall-back at a negative clock reading gives a negative index, and the run stops.\<close>

lemma GenerateRandomPassword_negative_clock:
  "GenerateRandomPassword draws_before_epoch 1000000 New 8 = Inl IndexOutOfRange"
  by code_simp

text \<open>A cost above 31, which only \<open>UpdateConfig\<close> can install, makes \<open>Hash\<close> fail.\<close>

lemma Hash_cost_above_31:
  "Manager_Hash id (bcrypt_ref digest_standin) 0 (Some ''saltsaltsaltsaltsaltsa'')
     (UpdateConfig New ((config New)\<lparr>BcryptCost := 32\<rparr>)) ''Passw0rd''
   = Inl (Wrapped ErrHashingFailed (Cause (bcrypt_InvalidCostError 32)))"
proof -
  have v: "Valid (Validate id (UpdateConfig New ((config New)\<lparr>BcryptCost := 32\<rparr>)) ''Passw0rd'')"
    using Passw0rd_classes
    by (simp add: Validate_Valid_chars UpdateConfig_def config_New)
  show ?thesis
    unfolding Manager_Hash_valid[OF v]
    by (simp add: UpdateConfig_def config_New bcrypt_ref_def ref_GenerateFromPassword_def)
qed

section \<open>The claims\<close>

subsection \<open>C1\<close>

text \<open>
  C1, as the code has it. With a bcrypt that keeps its contract, a manager whose cost
  is at most 31 (every manager a constructor returns, by \<open>NewWithConfig_cost_range\<close>),
  entropy for the salt, and a plaintext of at most 72 bytes that passes \<open>Validate\<close>:
  \<open>Hash\<close> succeeds and \<open>Verify\<close> accepts the plaintext against the hash it returned.
  A cost above 31 makes \<open>Hash\<close> fail (\<open>Hash_cost_above_31\<close>).
\<close>

theorem Hash_Verify_roundtrip:
  assumes "bcrypt_sound B"
    and "BcryptCost (config pm) \<le> 31"
    and "length p \<le> 72"
    and "Valid (Validate ul pm p)"
  shows "\<exists>hp. Manager_Hash ul B now (Some salt) pm p = Inr hp \<and> Verify B pm p (Hash hp) = None"
proof -
  obtain h where h: "GenerateFromPassword B (Some salt) p (BcryptCost (config pm)) = Inr h"
      "h \<noteq> []" "CompareHashAndPassword B h p = None"
    using assms(1-3) unfolding bcrypt_sound_def by blast
  have "Manager_Hash ul B now (Some salt) pm p =
          Inr \<lparr>Hash = h, Algorithm = ''bcrypt'', Cost = BcryptCost (config pm), CreatedAt = now\<rparr>"
    using assms(4) h(1) by (simp add: Manager_Hash_def)
  moreover have "Verify B pm p h = None"
    using h(2,3) by (simp add: Verify_def)
  ultimately show ?thesis by simp
qed

theorem Hash_Verify_roundtrip_witness:
  "bcrypt_sound (bcrypt_ref digest_standin) \<and> BcryptCost (config New) \<le> 31
   \<and> length ''Passw0rd'' \<le> 72 \<and> Valid (Validate id New ''Passw0rd'')
   \<and> (\<exists>hp. Manager_Hash id (bcrypt_ref digest_standin) 0 (Some ''saltsaltsaltsaltsaltsa'') New ''Passw0rd'' = Inr hp
          \<and> Verify (bcrypt_ref digest_standin) New ''Passw0rd'' (Hash hp) = None)"
proof -
  have s: "bcrypt_sound (bcrypt_ref digest_standin)"
    by (rule bcrypt_ref_sound)
  have c: "BcryptCost (config New) \<le> 31"
    by (simp add: config_New)
  have l: "length ''Passw0rd'' \<le> 72"
    by simp
  have v: "Valid (Validate id New ''Passw0rd'')"
    using Passw0rd_classes by (simp add: Valid_New)
  show ?thesis
    using s c l v Hash_Verify_roundtrip[OF s c l v, of 0 "''saltsaltsaltsaltsaltsa''"] by blast
qed

text \<open>
  C1, as the claim states it, fails: under the default policy a plaintext of 73 bytes
  with an uppercase letter, a lowercase letter and a digit passes \<open>Validate\<close>
  (\<open>MaxLength\<close> is 128), but bcrypt refuses more than 72 bytes and \<open>Hash\<close> fails with
  \<open>ErrHashingFailed\<close>.
\<close>

theorem Hash_long_password_counterexample:
  "Valid (Validate id New ''Passw0rdxxxxxxxxxxxxxxxxxxxxxxxxxxxxxxxxxxxxxxxxxxxxxxxxxxxxxxxxxxxxxxxxx'')
   \<and> Manager_Hash id (bcrypt_ref digest_standin) 0 (Some ''saltsaltsaltsaltsaltsa'') New ''Passw0rdxxxxxxxxxxxxxxxxxxxxxxxxxxxxxxxxxxxxxxxxxxxxxxxxxxxxxxxxxxxxxxxxx'' =
       Inl (Wrapped ErrHashingFailed (Cause bcrypt_ErrPasswordTooLong))"
proof -
  have v: "Valid (Validate id New ''Passw0rdxxxxxxxxxxxxxxxxxxxxxxxxxxxxxxxxxxxxxxxxxxxxxxxxxxxxxxxxxxxxxxxxx'')"
    using Passw0rd_classes by (simp add: Valid_New)
  show ?thesis
    using v by (simp add: Manager_Hash_def bcrypt_ref_def ref_GenerateFromPassword_def)
qed

subsection \<open>C2\<close>




subsection \<open>C3\<close>

text \<open>
  C3. \<open>Hash\<close> on a plaintext that fails \<open>Validate\<close> returns an error that wraps
  \<open>ErrPasswordTooWeak\<close> and carries the violation messages joined by a comma and a space;
  it returns no \<open>HashedPassword\<close>. The result is the same whatever bcrypt, clock and
  entropy are: none of them is consulted.
\<close>

theorem Hash_rejects_invalid:
  "\<not> Valid (Validate ul pm p) \<Longrightarrow>
   Manager_Hash ul B now entropy pm p =
     Inl (Wrapped ErrPasswordTooWeak (Text (Join (Errors (Validate ul pm p)) '', '')))"
  by (simp add: Manager_Hash_def)

theorem Hash_rejects_invalid_witness:
  "\<not> Valid (Validate id New ''password'')
   \<and> Manager_Hash id (bcrypt_ref digest_standin) 0 None New ''password'' =
       Inl (Wrapped ErrPasswordTooWeak (Text
         ''Password must contain at least one uppercase letter, Password must contain at least one digit''))"
proof -
  have invalid: "\<not> Valid (Validate id New ''password'')"
    by code_simp
  have msgs: "Join (Errors (Validate id New ''password'')) '', '' =
    ''Password must contain at least one uppercase letter, Password must contain at least one digit''"
    by code_simp
  show ?thesis
    using invalid Hash_rejects_invalid[OF invalid, of "bcrypt_ref digest_standin" 0 None]
    unfolding msgs by simp
qed

subsection \<open>C4\<close>

text \<open>
  C4. \<open>Verify\<close> should fail with \<open>ErrInvalidHash\<close> when the hash is empty or cannot be
  read, apart from the \<open>ErrVerificationFailed\<close> of a wrong password. The code does so for
  the empty hash only. The one-byte hash \<open>x\<close> is too short for bcrypt to read, and
  \<open>Verify\<close> answers with an error that wraps \<open>ErrVerificationFailed\<close>; \<open>VerifyAndCheck\<close>
  then takes its branch for a wrong password and reports no error at all, where for the
  empty hash it reports \<open>ErrInvalidHash\<close>.
\<close>

theorem Verify_malformed_hash_misreported:
  "CompareHashAndPassword (bcrypt_ref digest_standin) ''x'' ''Passw0rd'' = Some bcrypt_ErrHashTooShort
   \<and> Verify (bcrypt_ref digest_standin) New ''Passw0rd'' ''x'' =
       Some (Wrapped ErrVerificationFailed (Cause bcrypt_ErrHashTooShort))
   \<and> Verify (bcrypt_ref digest_standin) New ''Passw0rd'' ''x'' \<noteq> Some (Sentinel ErrInvalidHash)
   \<and> errors_Is (Wrapped ErrVerificationFailed (Cause bcrypt_ErrHashTooShort)) ErrVerificationFailed
   \<and> VerifyAndCheck (bcrypt_ref digest_standin) New ''Passw0rd'' ''x'' = (False, None)
   \<and> Verify (bcrypt_ref digest_standin) New ''Passw0rd'' [] = Some (Sentinel ErrInvalidHash)
   \<and> VerifyAndCheck (bcrypt_ref digest_standin) New ''Passw0rd'' [] =
       (False, Some (Sentinel ErrInvalidHash))"
  by (simp add: VerifyAndCheck_def Verify_def bcrypt_ref_def ref_CompareHashAndPassword_def
      ref_newFromHash_def)

subsection \<open>C5\<close>

text \<open>
  C5, as the code has it, on the reference instance of bcrypt and for any digest
  function \<open>bf\<close>: when \<open>Hash\<close> has accepted \<open>p\<close> and returned the hash \<open>h\<close>,
  \<open>Verify\<close> of any \<open>p2\<close> against \<open>h\<close> returns \<open>ErrVerificationFailed\<close> when the digest
  of \<open>p2\<close> (at the cost and salt of \<open>h\<close>) differs from the digest of \<open>p\<close>, and no error
  when the two agree. The digest sees a password only through its expanded key, so a
  \<open>p2\<close> with the expanded key of \<open>p\<close> is accepted.
\<close>

theorem Verify_other_password:
  assumes "HashString ul (bcrypt_ref bf) now (Some raw) pm p = Inr h"
  shows "Verify (bcrypt_ref bf) pm p2 h =
         (if fit 31 (bf (expand_key p2) (if BcryptCost (config pm) < 4 then 10 else BcryptCost (config pm))
                       (fit 22 raw))
             = fit 31 (bf (expand_key p) (if BcryptCost (config pm) < 4 then 10 else BcryptCost (config pm))
                       (fit 22 raw))
          then None else Some (Sentinel ErrVerificationFailed))"
  using Verify_after_Hash_ref[OF assms] .

theorem Verify_other_password_witness:
  "HashString id (bcrypt_ref digest_standin) 0 (Some ''saltsaltsaltsaltsaltsa'') New ''Passw0rd'' =
     Inr (''$2a$12$saltsaltsaltsaltsaltsa'' @ fit 31 (digest_standin (expand_key ''Passw0rd'') 12 ''saltsaltsaltsaltsaltsa''))
   \<and> Verify (bcrypt_ref digest_standin) New ''Passw0rd1''
       (''$2a$12$saltsaltsaltsaltsaltsa'' @ fit 31 (digest_standin (expand_key ''Passw0rd'') 12 ''saltsaltsaltsaltsaltsa''))
     = Some (Sentinel ErrVerificationFailed)
   \<and> Verify (bcrypt_ref digest_standin) New ''Passw0rd''
       (''$2a$12$saltsaltsaltsaltsaltsa'' @ fit 31 (digest_standin (expand_key ''Passw0rd'') 12 ''saltsaltsaltsaltsaltsa''))
     = None"
proof -
  let ?h = "''$2a$12$saltsaltsaltsaltsaltsa'' @ fit 31 (digest_standin (expand_key ''Passw0rd'') 12 ''saltsaltsaltsaltsaltsa'')"
  have v: "Valid (Validate id New ''Passw0rd'')"
    using Passw0rd_classes by (simp add: Valid_New)
  have f: "fit 22 ''saltsaltsaltsaltsaltsa'' = ''saltsaltsaltsaltsaltsa''" "two_digits 12 = ''12''"
    by code_simp+
  have hs: "HashString id (bcrypt_ref digest_standin) 0 (Some ''saltsaltsaltsaltsaltsa'') New ''Passw0rd'' = Inr ?h"
    using HashString_ref_valid[OF v, of digest_standin 0 "''saltsaltsaltsaltsaltsa''"]
    by (simp add: config_New f)
  have d: "fit 31 (digest_standin (expand_key ''Passw0rd1'') 12 (fit 22 ''saltsaltsaltsaltsaltsa''))
           \<noteq> fit 31 (digest_standin (expand_key ''Passw0rd'') 12 (fit 22 ''saltsaltsaltsaltsaltsa''))"
    by code_simp
  show ?thesis
    using hs d Verify_other_password[OF hs, of "''Passw0rd1''"]
      Verify_other_password[OF hs, of "''Passw0rd''"]
    by (simp add: config_New)
qed

text \<open>
  C5, as the claim states it, fails: under the default policy the 72-byte plaintext
  \<open>p\<close> below passes \<open>Validate\<close> and is hashed; \<open>p\<close> followed by \<open>y\<close> is a different
  password with the same expanded key, and \<open>Verify\<close> accepts it.
\<close>

theorem Verify_truncation_counterexample:
  "Valid (Validate id New ''Passw0rdxxxxxxxxxxxxxxxxxxxxxxxxxxxxxxxxxxxxxxxxxxxxxxxxxxxxxxxxxxxxxxxx'')
   \<and> ''Passw0rdxxxxxxxxxxxxxxxxxxxxxxxxxxxxxxxxxxxxxxxxxxxxxxxxxxxxxxxxxxxxxxxxy'' \<noteq> ''Passw0rdxxxxxxxxxxxxxxxxxxxxxxxxxxxxxxxxxxxxxxxxxxxxxxxxxxxxxxxxxxxxxxxx''
   \<and> expand_key ''Passw0rdxxxxxxxxxxxxxxxxxxxxxxxxxxxxxxxxxxxxxxxxxxxxxxxxxxxxxxxxxxxxxxxxy'' = expand_key ''Passw0rdxxxxxxxxxxxxxxxxxxxxxxxxxxxxxxxxxxxxxxxxxxxxxxxxxxxxxxxxxxxxxxxx''
   \<and> HashString id (bcrypt_ref digest_standin) 0 (Some ''saltsaltsaltsaltsaltsa'') New ''Passw0rdxxxxxxxxxxxxxxxxxxxxxxxxxxxxxxxxxxxxxxxxxxxxxxxxxxxxxxxxxxxxxxxx'' =
       Inr (''$2a$12$saltsaltsaltsaltsaltsa'' @ fit 31 (digest_standin (expand_key ''Passw0rdxxxxxxxxxxxxxxxxxxxxxxxxxxxxxxxxxxxxxxxxxxxxxxxxxxxxxxxxxxxxxxxx'') 12 ''saltsaltsaltsaltsaltsa''))
   \<and> Verify (bcrypt_ref digest_standin) New ''Passw0rdxxxxxxxxxxxxxxxxxxxxxxxxxxxxxxxxxxxxxxxxxxxxxxxxxxxxxxxxxxxxxxxxy''
       (''$2a$12$saltsaltsaltsaltsaltsa'' @ fit 31 (digest_standin (expand_key ''Passw0rdxxxxxxxxxxxxxxxxxxxxxxxxxxxxxxxxxxxxxxxxxxxxxxxxxxxxxxxxxxxxxxxx'') 12 ''saltsaltsaltsaltsaltsa'')) = None"
proof -
  let ?p = "''Passw0rdxxxxxxxxxxxxxxxxxxxxxxxxxxxxxxxxxxxxxxxxxxxxxxxxxxxxxxxxxxxxxxxx''"
  let ?h = "''$2a$12$saltsaltsaltsaltsaltsa'' @ fit 31 (digest_standin (expand_key ?p) 12 ''saltsaltsaltsaltsaltsa'')"
  have v: "Valid (Validate id New ?p)"
    using Passw0rd_classes by (simp add: Valid_New)
  have f: "fit 22 ''saltsaltsaltsaltsaltsa'' = ''saltsaltsaltsaltsaltsa''" "two_digits 12 = ''12''"
    by code_simp+
  have k: "expand_key ''Passw0rdxxxxxxxxxxxxxxxxxxxxxxxxxxxxxxxxxxxxxxxxxxxxxxxxxxxxxxxxxxxxxxxxy'' = expand_key ?p"
    by (simp add: expand_key_long)
  have hs: "HashString id (bcrypt_ref digest_standin) 0 (Some ''saltsaltsaltsaltsaltsa'') New ?p = Inr ?h"
    using HashString_ref_valid[OF v, of digest_standin 0 "''saltsaltsaltsaltsaltsa''"]
    by (simp add: config_New f)
  have "Verify (bcrypt_ref digest_standin) New ''Passw0rdxxxxxxxxxxxxxxxxxxxxxxxxxxxxxxxxxxxxxxxxxxxxxxxxxxxxxxxxxxxxxxxxy'' ?h = None"
    using Verify_after_Hash_ref[OF hs, of "''Passw0rdxxxxxxxxxxxxxxxxxxxxxxxxxxxxxxxxxxxxxxxxxxxxxxxxxxxxxxxxxxxxxxxxy''"] unfolding k by simp
  with v k hs show ?thesis by simp
qed

subsection \<open>C6\<close>

text \<open>
  C6. The cost of a manager is meant to stay within \<open>[4, 31]\<close>. A constructor puts it
  there (\<open>NewWithConfig_cost_range\<close>, \<open>NewWithConfig_defaults\<close>), but \<open>UpdateConfig\<close>
  stores the configuration it is given as it is: after \<open>New\<close>, an update with cost 100
  leaves the manager with cost 100.
\<close>

theorem UpdateConfig_cost_unchecked:
  "BcryptCost (GetConfig (UpdateConfig New
     \<lparr>MinLength = 8, MaxLength = 128, RequireUpper = True, RequireLower = True,
      RequireDigit = True, RequireSpecial = False, BcryptCost = 100\<rparr>)) = 100"
  by (simp add: UpdateConfig_def GetConfig_def)

subsection \<open>C7\<close>

text \<open>
  C7. For every plaintext, \<open>Validate\<close> reports \<open>Valid\<close> exactly when the length in bytes lies
  within \<open>[MinLength, MaxLength]\<close> and every class the policy requires has a character in
  the plaintext. The right-hand side mentions neither the score nor the strength tier:
  they have no influence on \<open>Valid\<close>.
\<close>

theorem Validate_Valid_iff:
  "Valid (Validate ul pm p) \<longleftrightarrow>
     (MinLength (config pm) \<le> int (length p) \<and> int (length p) \<le> MaxLength (config pm)
      \<and> (RequireUpper (config pm) \<longrightarrow> (\<exists>c \<in> set p. is_upper c))
      \<and> (RequireLower (config pm) \<longrightarrow> (\<exists>c \<in> set p. is_lower c))
      \<and> (RequireDigit (config pm) \<longrightarrow> (\<exists>c \<in> set p. is_digit c))
      \<and> (RequireSpecial (config pm) \<longrightarrow> (\<exists>c \<in> set p. is_special c)))"
  by (rule Validate_Valid_chars)

theorem Validate_Valid_iff_witness:
  "Valid (Validate id New ''Password1'') \<and> \<not> Valid (Validate id New ''password'')"
  using Validate_Valid_iff[of id New "''Password1''"] Validate_Valid_iff[of id New "''password''"]
  by (simp add: New_def NewWithConfig_def is_upper_def is_lower_def is_digit_def)

subsection \<open>C8\<close>

text \<open>
  C8. The score that \<open>Validate\<close> computes is at most 10 for every plaintext, and some
  plaintext reaches 10.
\<close>

theorem Score_max_10:
  "(\<forall>p. Score (Validate ul pm p) \<le> 10) \<and> (\<exists>p. Score (Validate ul pm p) = 10)"
proof
  show "\<forall>p. Score (Validate ul pm p) \<le> 10"
    by (simp add: Validate_Score score_of_le_10)
next
  have "score_of ul ''Tr0ub4dor&3x!Kq9Z'' = 10"
    by code_simp
  then show "\<exists>p. Score (Validate ul pm p) = 10"
    unfolding Validate_Score by blast
qed

subsection \<open>C9\<close>

text \<open>
  C9, as the code has it. \<open>randomInt\<close> takes the fall-back without a log or a flag, and
  the generator returns a string and a nil error only. For every run on usable draws
  (secure reads, or fall-backs at any clock reading that is not negative) whose
  password has at most \<open>2 ^ 32\<close> bytes, there is a run on secure reads alone that
  returns exactly the same: nothing in the result tells the degraded run apart.
\<close>

theorem fallback_unobservable:
  assumes "\<forall>k. usable (rs k)"
    and "clamp_length (config pm) n \<le> 2 ^ 32"
  shows "\<exists>rs'. (\<forall>k. is_secure (rs' k))
           \<and> GenerateRandomPassword rs' mem pm n = GenerateRandomPassword rs mem pm n"
  using assms by (rule GenerateRandomPassword_secure_twin)

theorem fallback_unobservable_witness:
  "(\<forall>k. usable (draws_fallback k)) \<and> (\<forall>k. \<not> is_secure (draws_fallback k))
   \<and> clamp_length (config New) 8 \<le> 2 ^ 32
   \<and> (\<exists>rs'. (\<forall>k. is_secure (rs' k))
         \<and> GenerateRandomPassword rs' 1000000 New 8
           = GenerateRandomPassword draws_fallback 1000000 New 8)"
proof -
  have u: "\<forall>k. usable (draws_fallback k)"
    by (simp add: draws_fallback_def)
  have f: "\<forall>k. \<not> is_secure (draws_fallback k)"
    by (simp add: draws_fallback_def)
  have c: "clamp_length (config New) 8 \<le> 2 ^ 32"
    by (simp add: config_New clamp_length_def)
  show ?thesis
    using u f c fallback_unobservable[OF u c, of 1000000] by blast
qed

text \<open>
  C9, as the claim states it, fails: a run in which every secure read fails, with the
  clock at nanosecond readings of 31 October 2025, and a run in which every secure read
  succeeds return the same string and the same nil error; nothing in the result marks
  the degraded run.
\<close>

theorem fallback_silent_counterexample:
  "draws_fallback 0 = Fallback 1761868800000003760
   \<and> draws_secure 0 = Secure (CHR 0x00) (CHR 0x00) (CHR 0x00) (CHR 0x00)
   \<and> GenerateRandomPassword draws_fallback 1000000 New 8 = Inr (''aB2defgh'', None)
   \<and> GenerateRandomPassword draws_secure 1000000 New 8 = Inr (''aB2defgh'', None)"
proof -
  have f: "GenerateRandomPassword draws_fallback 1000000 New 8 = Inr (''aB2defgh'', None)"
    by code_simp
  have s: "GenerateRandomPassword draws_secure 1000000 New 8 = Inr (''aB2defgh'', None)"
    by code_simp
  have d: "draws_fallback 0 = Fallback 1761868800000003760"
    "draws_secure 0 = Secure (CHR 0x00) (CHR 0x00) (CHR 0x00) (CHR 0x00)"
    by code_simp+
  show ?thesis
    using f s d by simp
qed

subsection \<open>C10\<close>

text \<open>
  C10, as the code has it. \<open>Validate\<close> measures length in bytes: the plaintext is flagged
  as too short exactly when its byte length is below \<open>MinLength\<close>, and as too long
  exactly when its byte length is above \<open>MaxLength\<close>. Hence, for a policy with
  \<open>MinLength\<close> of 2 or more, some string of fewer than \<open>MinLength\<close> characters (two-byte
  characters) is not flagged as too short.
\<close>

theorem Validate_length_in_bytes:
  "(msgTooShort (config pm) \<in> set (Errors (Validate ul pm p))
      \<longleftrightarrow> int (length p) < MinLength (config pm))
   \<and> (msgTooLong (config pm) \<in> set (Errors (Validate ul pm p))
      \<longleftrightarrow> int (length p) > MaxLength (config pm))
   \<and> (2 \<le> MinLength (config pm) \<longrightarrow>
        (\<exists>s. int (RuneCount s) < MinLength (config pm) \<and> MinLength (config pm) \<le> int (length s)
           \<and> msgTooShort (config pm) \<notin> set (Errors (Validate ul pm s))))"
proof (intro conjI impI)
  show "msgTooShort (config pm) \<in> set (Errors (Validate ul pm p))
      \<longleftrightarrow> int (length p) < MinLength (config pm)"
    by (rule flagged_too_short_iff)
  show "msgTooLong (config pm) \<in> set (Errors (Validate ul pm p))
      \<longleftrightarrow> int (length p) > MaxLength (config pm)"
    by (rule flagged_too_long_iff)
next
  assume "2 \<le> MinLength (config pm)"
  then obtain s where s: "int (RuneCount s) < MinLength (config pm)"
      "MinLength (config pm) \<le> int (length s)"
    using short_in_characters by blast
  then have "msgTooShort (config pm) \<notin> set (Errors (Validate ul pm s))"
    by (simp add: flagged_too_short_iff)
  with s show "\<exists>s. int (RuneCount s) < MinLength (config pm)
      \<and> MinLength (config pm) \<le> int (length s)
      \<and> msgTooShort (config pm) \<notin> set (Errors (Validate ul pm s))"
    by blast
qed

theorem Validate_length_in_bytes_witness:
  "2 \<le> MinLength (config New)
   \<and> (\<exists>s. int (RuneCount s) < MinLength (config New) \<and> MinLength (config New) \<le> int (length s)
         \<and> msgTooShort (config New) \<notin> set (Errors (Validate id New s)))"
  using Validate_length_in_bytes[of New id "[]"] by (simp add: config_New)

text \<open>
  C10, as the claim states it (for every policy), fails: with \<open>MinLength\<close> 1 a string
  of fewer than \<open>MinLength\<close> characters is empty, has no byte, and is flagged as too
  short; no string of the kind the claim describes exists.
\<close>

theorem Validate_length_min_one_counterexample:
  "MinLength (config policy_min_one) = 1
   \<and> \<not> (\<exists>s. int (RuneCount s) < MinLength (config policy_min_one)
            \<and> MinLength (config policy_min_one) \<le> int (length s)
            \<and> msgTooShort (config policy_min_one)
                \<notin> set (Errors (Validate id policy_min_one s)))"
proof -
  have m: "MinLength (config policy_min_one) = 1"
    by (simp add: policy_min_one_def NewWithConfig_def)
  have "\<not> (int (RuneCount s) < 1 \<and> 1 \<le> int (length s))" for s
    using runes_Nil_iff[of s] by (auto simp: RuneCount_def)
  then show ?thesis
    unfolding m by blast
qed

end
